theory Spec2Isabelle
  imports Main "HOL-Library.Word" "HOL-Library.Multiset"
begin

unbundle bit_operations_syntax

section \<open>Common definitions (common.h)\<close>

text \<open>
  Conventions of the embedding.  A C string is a \<^typ>\<open>string\<close> (the terminating NUL is the
  end of the list, \<open>strcmp\<close> is equality).  A pointer that the code tests against \<open>NULL\<close> is
  an \<open>option\<close> value.  \<open>size_t\<close> counts and capacities are \<^typ>\<open>nat\<close>: they count
  allocated objects and stay far below \<open>2^64\<close>; the hash value, which does wrap around, is a
  \<^typ>\<open>64 word\<close>.  Allocation is taken to succeed, so the \<open>PCC_ERROR_MEMORY\<close> returns that
  follow a failed \<open>malloc\<close> have no branch here; freeing memory has no counterpart either.
\<close>

datatype PCCError =
    PCC_SUCCESS
  | PCC_ERROR_MEMORY
  | PCC_ERROR_SYNTAX
  | PCC_ERROR_SEMANTIC
  | PCC_ERROR_IO
  | PCC_ERROR_RUNTIME
  | PCC_ERROR_UNKNOWN

definition INITIAL_CAPACITY :: nat where
  "INITIAL_CAPACITY = 16"

record PCCPosition =
  line :: int
  column :: int
  filename :: string

section \<open>Hash table (hashtable.c)\<close>

text \<open>
  \<open>pcc_default_hash\<close> is DJB2 on \<open>size_t\<close>: \<open>hash = ((hash << 5) + hash) + c\<close> for each
  character, where \<open>int c = *key++\<close> reads a \<open>char\<close> (signed on the usual ABIs, hence the
  sign extension of bytes from 128 on).
\<close>

definition char_to_int :: "char \<Rightarrow> int" where
  "char_to_int c = signed_take_bit 7 (of_char c)"

primrec djb2_loop :: "64 word \<Rightarrow> string \<Rightarrow> 64 word" where
  "djb2_loop hash [] = hash"
| "djb2_loop hash (c # key) = djb2_loop ((push_bit 5 hash + hash) + word_of_int (char_to_int c)) key"

definition pcc_default_hash :: "string \<Rightarrow> 64 word" where
  "pcc_default_hash key = djb2_loop 5381 key"

text \<open>
  A bucket is the chain of its entries in list order (\<open>next\<close> pointers); an entry is its key
  and its value, a \<open>void*\<close> that may be \<open>NULL\<close>.  The field \<open>size\<close> of the C struct is
  \<open>ht_size\<close> here, the name \<open>size\<close> being taken in HOL.
\<close>

type_synonym 'v PCCHashEntry = "string \<times> 'v option"

record 'v PCCHashTable =
  buckets :: "'v PCCHashEntry list list"
  ht_size :: nat
  capacity :: nat
  hash_func :: "string \<Rightarrow> 64 word"

definition pcc_hashtable_create :: "nat \<Rightarrow> (string \<Rightarrow> 64 word) option \<Rightarrow> 'v PCCHashTable" where
  "pcc_hashtable_create initial_capacity hf =
     (let cap = (if initial_capacity = 0 then INITIAL_CAPACITY else initial_capacity)
      in \<lparr> buckets = replicate cap [], ht_size = 0, capacity = cap,
           hash_func = (case hf of None \<Rightarrow> pcc_default_hash | Some f \<Rightarrow> f) \<rparr>)"

text \<open>\<open>hash % table->capacity\<close>, the bucket of a key.\<close>

definition bucket_index :: "(string \<Rightarrow> 64 word) \<Rightarrow> nat \<Rightarrow> string \<Rightarrow> nat" where
  "bucket_index hf cap key = unat (hf key) mod cap"

text \<open>
  \<open>pcc_hashtable_resize\<close> walks every old chain front to back and pushes each entry on the
  front of its new bucket.
\<close>

primrec rehash_chain ::
  "(string \<Rightarrow> 64 word) \<Rightarrow> nat \<Rightarrow> 'v PCCHashEntry list \<Rightarrow> 'v PCCHashEntry list list \<Rightarrow> 'v PCCHashEntry list list" where
  "rehash_chain hf new_capacity [] new_buckets = new_buckets"
| "rehash_chain hf new_capacity (entry # next) new_buckets =
     (let new_index = bucket_index hf new_capacity (fst entry)
      in rehash_chain hf new_capacity next
           (new_buckets[new_index := entry # new_buckets ! new_index]))"

primrec rehash_buckets ::
  "(string \<Rightarrow> 64 word) \<Rightarrow> nat \<Rightarrow> 'v PCCHashEntry list list \<Rightarrow> 'v PCCHashEntry list list \<Rightarrow> 'v PCCHashEntry list list" where
  "rehash_buckets hf new_capacity [] new_buckets = new_buckets"
| "rehash_buckets hf new_capacity (chain # rest) new_buckets =
     rehash_buckets hf new_capacity rest (rehash_chain hf new_capacity chain new_buckets)"

definition pcc_hashtable_resize :: "'v PCCHashTable \<Rightarrow> nat \<Rightarrow> PCCError \<times> 'v PCCHashTable" where
  "pcc_hashtable_resize table new_capacity =
     (if new_capacity < ht_size table then (PCC_ERROR_RUNTIME, table)
      else (PCC_SUCCESS,
            table\<lparr> buckets := rehash_buckets (hash_func table) new_capacity (buckets table)
                                (replicate new_capacity []),
                   capacity := new_capacity \<rparr>))"

text \<open>
  The \<open>while\<close> loop of \<open>pcc_hashtable_put\<close> over one chain: an entry with the key gets the
  new value in place; otherwise a new entry is linked after the last one.  The flag tells
  whether an entry was added (\<open>table->size++\<close>).
\<close>

fun chain_put :: "string \<Rightarrow> 'v option \<Rightarrow> 'v PCCHashEntry list \<Rightarrow> 'v PCCHashEntry list \<times> bool" where
  "chain_put key val [] = ([(key, val)], True)"
| "chain_put key val ((k, v) # next) =
     (if k = key then ((k, val) # next, False)
      else (case chain_put key val next of (next', added) \<Rightarrow> ((k, v) # next', added)))"

definition pcc_hashtable_put :: "'v PCCHashTable \<Rightarrow> string \<Rightarrow> 'v option \<Rightarrow> PCCError \<times> 'v PCCHashTable" where
  "pcc_hashtable_put table key val =
     (case (if ht_size table > capacity table * 3 div 4
            then pcc_hashtable_resize table (capacity table * 2)
            else (PCC_SUCCESS, table)) of
        (err, table1) \<Rightarrow>
          if err \<noteq> PCC_SUCCESS then (err, table1)
          else
            (let index = bucket_index (hash_func table1) (capacity table1) key
             in case chain_put key val (buckets table1 ! index) of
                  (chain', added) \<Rightarrow>
                    (PCC_SUCCESS,
                     table1\<lparr> buckets := (buckets table1)[index := chain'],
                             ht_size := (if added then ht_size table1 + 1 else ht_size table1) \<rparr>)))"

fun chain_get :: "string \<Rightarrow> 'v PCCHashEntry list \<Rightarrow> 'v option" where
  "chain_get key [] = None"
| "chain_get key ((k, v) # next) = (if k = key then v else chain_get key next)"

definition pcc_hashtable_get :: "'v PCCHashTable \<Rightarrow> string \<Rightarrow> 'v option" where
  "pcc_hashtable_get table key =
     chain_get key (buckets table ! bucket_index (hash_func table) (capacity table) key)"

definition pcc_hashtable_contains :: "'v PCCHashTable \<Rightarrow> string \<Rightarrow> bool" where
  "pcc_hashtable_contains table key = (pcc_hashtable_get table key \<noteq> None)"

text \<open>
  The entries and keys of a table, and the well-formedness of a table: at least one bucket,
  as many chains as \<open>capacity\<close> says, \<open>size\<close> the number of entries and small enough for
  the doubling in \<open>pcc_hashtable_put\<close> to pass the guard of \<open>pcc_hashtable_resize\<close>, no key
  twice, every entry in the bucket of its hash.
\<close>

definition ht_entries :: "'v PCCHashTable \<Rightarrow> 'v PCCHashEntry list" where
  "ht_entries table = concat (buckets table)"

definition ht_keys :: "'v PCCHashTable \<Rightarrow> string list" where
  "ht_keys table = map fst (ht_entries table)"

definition chains_placed :: "(string \<Rightarrow> 64 word) \<Rightarrow> nat \<Rightarrow> 'v PCCHashEntry list list \<Rightarrow> bool" where
  "chains_placed hf cap bs =
     list_all (\<lambda>(i, chain). list_all (\<lambda>e. bucket_index hf cap (fst e) = i) chain)
       (enumerate 0 bs)"

definition ht_inv :: "'v PCCHashTable \<Rightarrow> bool" where
  "ht_inv table \<longleftrightarrow>
     0 < capacity table \<and>
     length (buckets table) = capacity table \<and>
     ht_size table = length (ht_entries table) \<and>
     ht_size table \<le> 2 * capacity table \<and>
     distinct (ht_keys table) \<and>
     chains_placed (hash_func table) (capacity table) (buckets table)"


section \<open>Properties of the hash table\<close>

lemma chains_placed_iff:
  "chains_placed hf cap bs \<longleftrightarrow>
     (\<forall>i < length bs. \<forall>e \<in> set (bs ! i). bucket_index hf cap (fst e) = i)"
proof
  assume p: "chains_placed hf cap bs"
  show "\<forall>i < length bs. \<forall>e \<in> set (bs ! i). bucket_index hf cap (fst e) = i"
  proof (intro allI impI ballI)
    fix i e assume "i < length bs" "e \<in> set (bs ! i)"
    then have "(i, bs ! i) \<in> set (enumerate 0 bs)"
      by (simp add: in_set_enumerate_eq)
    with p have "list_all (\<lambda>e. bucket_index hf cap (fst e) = i) (bs ! i)"
      unfolding chains_placed_def list_all_iff by blast
    with \<open>e \<in> set (bs ! i)\<close> show "bucket_index hf cap (fst e) = i"
      by (simp add: list_all_iff)
  qed
next
  assume q: "\<forall>i < length bs. \<forall>e \<in> set (bs ! i). bucket_index hf cap (fst e) = i"
  show "chains_placed hf cap bs"
    unfolding chains_placed_def list_all_iff
  proof (intro ballI)
    fix x assume "x \<in> set (enumerate 0 bs)"
    then have "fst x < length bs" "snd x = bs ! fst x"
      by (auto simp: in_set_enumerate_eq)
    with q show "case x of (i, chain) \<Rightarrow> \<forall>e\<in>set chain. bucket_index hf cap (fst e) = i"
      by (simp add: case_prod_beta)
  qed
qed

subsection \<open>Chains\<close>

lemma chain_put_added:
  "snd (chain_put key val ch) \<longleftrightarrow> key \<notin> set (map fst ch)"
  by (induction ch) (force split: prod.splits)+

lemma chain_put_keys:
  "map fst (fst (chain_put key val ch)) =
     (if key \<in> set (map fst ch) then map fst ch else map fst ch @ [key])"
  by (induction ch) (force split: prod.splits)+

lemma chain_put_length:
  "length (fst (chain_put key val ch)) =
     (if key \<in> set (map fst ch) then length ch else length ch + 1)"
  by (induction ch) (force split: prod.splits)+

lemma chain_get_put_same:
  "chain_get key (fst (chain_put key val ch)) = val"
  by (induction ch) (auto split: prod.splits)

lemma chain_get_put_other:
  "k' \<noteq> key \<Longrightarrow> chain_get k' (fst (chain_put key val ch)) = chain_get k' ch"
  by (induction ch) (auto split: prod.splits)

lemma chain_get_map_of:
  "chain_get key ch = (case map_of ch key of None \<Rightarrow> None | Some v \<Rightarrow> v)"
  by (induction ch) auto

subsection \<open>Buckets\<close>

lemma concat_update:
  "i < length bs \<Longrightarrow>
     concat (bs[i := c]) = concat (take i bs) @ c @ concat (drop (Suc i) bs)"
  by (simp add: upd_conv_take_nth_drop)

lemma concat_split:
  "i < length bs \<Longrightarrow>
     concat bs = concat (take i bs) @ bs ! i @ concat (drop (Suc i) bs)"
  using concat_update [of i bs "bs ! i"] by simp

lemma placed_take_other:
  assumes "chains_placed hf cap bs" and "i < length bs"
    and "e \<in> set (concat (take i bs))"
  shows "bucket_index hf cap (fst e) \<noteq> i"
proof -
  from assms(3) obtain ys where ys: "ys \<in> set (take i bs)" "e \<in> set ys"
    by auto
  then obtain j where j: "j < length (take i bs)" "ys = take i bs ! j"
    by (auto simp: in_set_conv_nth)
  with assms(2) have "j < i" "ys = bs ! j" by auto
  with assms(1,2) ys(2) have "bucket_index hf cap (fst e) = j"
    by (simp add: chains_placed_iff)
  with \<open>j < i\<close> show ?thesis by simp
qed

lemma placed_drop_other:
  assumes "chains_placed hf cap bs" and "i < length bs"
    and "e \<in> set (concat (drop (Suc i) bs))"
  shows "bucket_index hf cap (fst e) \<noteq> i"
proof -
  from assms(3) obtain ys where ys: "ys \<in> set (drop (Suc i) bs)" "e \<in> set ys"
    by auto
  then obtain j where j: "j < length (drop (Suc i) bs)" "ys = drop (Suc i) bs ! j"
    by (auto simp: in_set_conv_nth)
  then have "Suc i + j < length bs" "ys = bs ! (Suc i + j)" by auto
  with assms(1) ys(2) have "bucket_index hf cap (fst e) = Suc i + j"
    by (simp add: chains_placed_iff)
  then show ?thesis by simp
qed

lemma placed_key_in_bucket:
  assumes "chains_placed hf cap bs" and "bucket_index hf cap key < length bs"
  shows "key \<in> set (map fst (concat bs)) \<longleftrightarrow>
         key \<in> set (map fst (bs ! bucket_index hf cap key))"
proof -
  let ?i = "bucket_index hf cap key"
  have a: "key \<notin> fst ` set (concat (take ?i bs))"
    using placed_take_other [OF assms] by blast
  have b: "key \<notin> fst ` set (concat (drop (Suc ?i) bs))"
    using placed_drop_other [OF assms] by blast
  have "set (concat bs) = set (concat (take ?i bs)) \<union> set (bs ! ?i) \<union> set (concat (drop (Suc ?i) bs))"
    using concat_split [OF assms(2)] by (metis set_append sup_assoc)
  with a b show ?thesis by auto
qed

lemma placed_map_of:
  assumes "chains_placed hf cap bs" and "bucket_index hf cap key < length bs"
  shows "map_of (concat bs) key = map_of (bs ! bucket_index hf cap key) key"
proof -
  let ?i = "bucket_index hf cap key"
  have a: "map_of (concat (take ?i bs)) key = None"
    using placed_take_other [OF assms] by (force simp: map_of_eq_None_iff)
  have b: "map_of (concat (drop (Suc ?i) bs)) key = None"
    using placed_drop_other [OF assms] by (force simp: map_of_eq_None_iff)
  have "map_of (concat bs) key =
        map_of (concat (take ?i bs) @ bs ! ?i @ concat (drop (Suc ?i) bs)) key"
    using concat_split [OF assms(2)] by simp
  with a b show ?thesis
    by (simp add: map_add_def split: option.splits)
qed


subsection \<open>Rehashing\<close>

lemma bucket_index_less: "0 < cap \<Longrightarrow> bucket_index hf cap key < cap"
  by (simp add: bucket_index_def)

lemma mset_concat_cons_update:
  assumes "i < length nb"
  shows "mset (concat (nb[i := e # nb ! i])) = add_mset e (mset (concat nb))"
proof -
  have "mset (concat (nb[i := e # nb ! i])) =
        mset (concat (take i nb)) + add_mset e (mset (nb ! i)) + mset (concat (drop (Suc i) nb))"
    using assms by (simp add: concat_update)
  also have "\<dots> = add_mset e (mset (concat (take i nb) @ nb ! i @ concat (drop (Suc i) nb)))"
    by simp
  finally show ?thesis
    using concat_split [OF assms] by simp
qed

lemma placed_cons_update:
  assumes "chains_placed hf cap nb" and "i < length nb" and "bucket_index hf cap (fst e) = i"
  shows "chains_placed hf cap (nb[i := e # nb ! i])"
  using assms unfolding chains_placed_iff
  by (auto simp: nth_list_update)

lemma rehash_chain_length:
  "0 < n \<Longrightarrow> length nb = n \<Longrightarrow> length (rehash_chain hf n ch nb) = n"
  by (induction ch arbitrary: nb) (simp_all add: Let_def)

lemma rehash_chain_mset:
  "0 < n \<Longrightarrow> length nb = n \<Longrightarrow>
     mset (concat (rehash_chain hf n ch nb)) = mset ch + mset (concat nb)"
proof (induction ch arbitrary: nb)
  case Nil
  then show ?case by simp
next
  case (Cons e ch)
  let ?i = "bucket_index hf n (fst e)"
  from Cons.prems have i: "?i < length nb"
    by (simp add: bucket_index_less)
  have "mset (concat (rehash_chain hf n ch (nb[?i := e # nb ! ?i]))) =
        mset ch + mset (concat (nb[?i := e # nb ! ?i]))"
    using Cons.prems by (intro Cons.IH) simp_all
  then show ?case
    using mset_concat_cons_update [OF i] by (simp add: Let_def)
qed

lemma rehash_chain_placed:
  "0 < n \<Longrightarrow> length nb = n \<Longrightarrow> chains_placed hf n nb \<Longrightarrow>
     chains_placed hf n (rehash_chain hf n ch nb)"
proof (induction ch arbitrary: nb)
  case Nil
  then show ?case by simp
next
  case (Cons e ch)
  let ?i = "bucket_index hf n (fst e)"
  from Cons.prems have i: "?i < length nb"
    by (simp add: bucket_index_less)
  have "chains_placed hf n (nb[?i := e # nb ! ?i])"
    using placed_cons_update [OF Cons.prems(3) i] by simp
  with Cons.prems show ?case
    by (simp add: Let_def Cons.IH)
qed

lemma rehash_buckets_length:
  "0 < n \<Longrightarrow> length nb = n \<Longrightarrow> length (rehash_buckets hf n bs nb) = n"
  by (induction bs arbitrary: nb) (simp_all add: rehash_chain_length)

lemma rehash_buckets_mset:
  "0 < n \<Longrightarrow> length nb = n \<Longrightarrow>
     mset (concat (rehash_buckets hf n bs nb)) = mset (concat bs) + mset (concat nb)"
  by (induction bs arbitrary: nb)
     (simp_all add: rehash_chain_length rehash_chain_mset)

lemma rehash_buckets_placed:
  "0 < n \<Longrightarrow> length nb = n \<Longrightarrow> chains_placed hf n nb \<Longrightarrow>
     chains_placed hf n (rehash_buckets hf n bs nb)"
  by (induction bs arbitrary: nb)
     (simp_all add: rehash_chain_length rehash_chain_placed)

lemma placed_replicate: "chains_placed hf n (replicate n [])"
  by (simp add: chains_placed_iff)

lemma concat_replicate_Nil: "concat (replicate n []) = []"
  by (induction n) simp_all

text \<open>Resizing keeps the entries as a multiset and places each in its new bucket.\<close>

lemma resize_ok:
  assumes "ht_inv t" and "ht_size t \<le> n" and "0 < n"
  shows "fst (pcc_hashtable_resize t n) = PCC_SUCCESS"
    and "capacity (snd (pcc_hashtable_resize t n)) = n"
    and "length (buckets (snd (pcc_hashtable_resize t n))) = n"
    and "hash_func (snd (pcc_hashtable_resize t n)) = hash_func t"
    and "ht_size (snd (pcc_hashtable_resize t n)) = ht_size t"
    and "mset (ht_entries (snd (pcc_hashtable_resize t n))) = mset (ht_entries t)"
    and "chains_placed (hash_func t) n (buckets (snd (pcc_hashtable_resize t n)))"
  using assms
  by (simp_all add: pcc_hashtable_resize_def ht_entries_def rehash_buckets_length
      rehash_buckets_mset rehash_buckets_placed placed_replicate concat_replicate_Nil)


subsection \<open>Insertion into the chain of a bucket\<close>

lemma chain_put_placed:
  assumes "\<forall>e \<in> set ch. bucket_index hf cap (fst e) = i" and "bucket_index hf cap key = i"
  shows "\<forall>e \<in> set (fst (chain_put key val ch)). bucket_index hf cap (fst e) = i"
  using assms by (induction ch) (fastforce split: prod.splits if_splits)+

lemma put_step:
  fixes t1 :: "'v PCCHashTable" and key :: string and val :: "'v option"
  assumes cap: "0 < capacity t1"
    and len: "length (buckets t1) = capacity t1"
    and sz: "ht_size t1 = length (ht_entries t1)"
    and dist: "distinct (ht_keys t1)"
    and placed: "chains_placed (hash_func t1) (capacity t1) (buckets t1)"
  defines "i \<equiv> bucket_index (hash_func t1) (capacity t1) key"
  defines "r \<equiv> chain_put key val (buckets t1 ! i)"
  defines "t' \<equiv> t1\<lparr> buckets := (buckets t1)[i := fst r],
                     ht_size := (if snd r then ht_size t1 + 1 else ht_size t1) \<rparr>"
  shows "capacity t' = capacity t1"
    and "length (buckets t') = capacity t1"
    and "hash_func t' = hash_func t1"
    and "set (ht_keys t') = insert key (set (ht_keys t1))"
    and "length (ht_entries t') =
           (if key \<in> set (ht_keys t1) then length (ht_entries t1) else length (ht_entries t1) + 1)"
    and "ht_size t' = length (ht_entries t')"
    and "distinct (ht_keys t')"
    and "chains_placed (hash_func t') (capacity t') (buckets t')"
    and "pcc_hashtable_get t' key = val"
    and "\<forall>k'. k' \<noteq> key \<longrightarrow> pcc_hashtable_get t' k' = pcc_hashtable_get t1 k'"
proof -
  let ?bs = "buckets t1"
  let ?A = "concat (take i ?bs)" and ?B = "concat (drop (Suc i) ?bs)"
  have i: "i < length ?bs"
    using cap len by (simp add: i_def bucket_index_less)
  have old: "ht_entries t1 = ?A @ ?bs ! i @ ?B"
    unfolding ht_entries_def using concat_split [OF i] .
  have new: "ht_entries t' = ?A @ fst r @ ?B"
    unfolding ht_entries_def t'_def using concat_update [OF i] by simp
  have inb: "key \<in> set (ht_keys t1) \<longleftrightarrow> key \<in> set (map fst (?bs ! i))"
    unfolding ht_keys_def ht_entries_def i_def
    using placed_key_in_bucket [OF placed] i by (simp add: i_def)
  have keys_r: "map fst (fst r) =
      (if key \<in> set (ht_keys t1) then map fst (?bs ! i) else map fst (?bs ! i) @ [key])"
    unfolding r_def using chain_put_keys [of key val "?bs ! i"] inb by simp
  have added: "snd r \<longleftrightarrow> key \<notin> set (ht_keys t1)"
    unfolding r_def using chain_put_added [of key val "?bs ! i"] inb by simp
  show "capacity t' = capacity t1" "hash_func t' = hash_func t1"
    by (simp_all add: t'_def)
  show "length (buckets t') = capacity t1"
    using len by (simp add: t'_def)
  show "set (ht_keys t') = insert key (set (ht_keys t1))"
    unfolding ht_keys_def new old using keys_r inb
    by (auto simp: ht_keys_def old simp flip: set_map)
  have len_r: "length (fst r) =
      (if key \<in> set (ht_keys t1) then length (?bs ! i) else length (?bs ! i) + 1)"
    unfolding r_def using chain_put_length [of key val "?bs ! i"] inb by simp
  show l: "length (ht_entries t') =
           (if key \<in> set (ht_keys t1) then length (ht_entries t1) else length (ht_entries t1) + 1)"
    unfolding new old using len_r by simp
  show "ht_size t' = length (ht_entries t')"
    using l added sz by (simp add: t'_def)
  show "distinct (ht_keys t')"
  proof (cases "key \<in> set (ht_keys t1)")
    case True
    with keys_r have "ht_keys t' = ht_keys t1"
      by (simp add: ht_keys_def new old)
    with dist show ?thesis by simp
  next
    case False
    with keys_r have "ht_keys t' = map fst ?A @ (map fst (?bs ! i) @ [key]) @ map fst ?B"
      by (simp add: ht_keys_def new)
    moreover have "ht_keys t1 = map fst ?A @ map fst (?bs ! i) @ map fst ?B"
      by (simp add: ht_keys_def old)
    ultimately show ?thesis
      using dist False by auto
  qed
  have pl_i: "\<forall>e \<in> set (fst r). bucket_index (hash_func t1) (capacity t1) (fst e) = i"
    unfolding r_def
    by (rule chain_put_placed) (use placed i in \<open>simp_all add: chains_placed_iff i_def\<close>)
  show "chains_placed (hash_func t') (capacity t') (buckets t')"
    using placed pl_i i unfolding chains_placed_iff t'_def
    by (auto simp: nth_list_update)
  show "pcc_hashtable_get t' key = val"
    using i by (simp add: pcc_hashtable_get_def t'_def i_def [symmetric] r_def chain_get_put_same)
  show "\<forall>k'. k' \<noteq> key \<longrightarrow> pcc_hashtable_get t' k' = pcc_hashtable_get t1 k'"
  proof (intro allI impI)
    fix k' assume ne: "k' \<noteq> key"
    show "pcc_hashtable_get t' k' = pcc_hashtable_get t1 k'"
    proof (cases "bucket_index (hash_func t1) (capacity t1) k' = i")
      case True
      then show ?thesis
        using i ne by (simp add: pcc_hashtable_get_def t'_def r_def chain_get_put_other)
    next
      case False
      then show ?thesis
        by (simp add: pcc_hashtable_get_def t'_def)
    qed
  qed
qed


subsection \<open>Lookup through the entry list\<close>

lemma get_map_of:
  assumes "0 < capacity t" and "length (buckets t) = capacity t"
    and "chains_placed (hash_func t) (capacity t) (buckets t)"
  shows "pcc_hashtable_get t k =
           (case map_of (ht_entries t) k of None \<Rightarrow> None | Some v \<Rightarrow> v)"
proof -
  have "bucket_index (hash_func t) (capacity t) k < length (buckets t)"
    using assms(1,2) by (simp add: bucket_index_less)
  from placed_map_of [OF assms(3) this] show ?thesis
    by (simp add: pcc_hashtable_get_def ht_entries_def chain_get_map_of)
qed

lemma mset_entries_keys:
  assumes "mset (xs :: 'v PCCHashEntry list) = mset ys"
  shows "distinct (map fst xs) \<longleftrightarrow> distinct (map fst ys)"
    and "set (map fst xs) = set (map fst ys)"
    and "length xs = length ys"
proof -
  have "mset (map fst xs) = mset (map fst ys)"
    using assms by (metis mset_map)
  then show "distinct (map fst xs) \<longleftrightarrow> distinct (map fst ys)"
    by (rule mset_eq_imp_distinct_iff)
  show "set (map fst xs) = set (map fst ys)"
    using assms by (metis mset_eq_setD set_map)
  show "length xs = length ys"
    using assms by (rule mset_eq_length)
qed

lemma mset_entries_map_of:
  assumes "mset (xs :: 'v PCCHashEntry list) = mset ys" and "distinct (map fst xs)"
  shows "map_of xs = map_of ys"
proof -
  have "distinct (map fst ys)"
    using mset_entries_keys(1) [OF assms(1)] assms(2) by simp
  moreover have "set xs = set ys"
    using assms(1) by (rule mset_eq_setD)
  ultimately show ?thesis
    using assms(2) by (simp add: map_of_inject_set)
qed

lemma create_inv: "ht_inv (pcc_hashtable_create n hf)"
  by (simp add: ht_inv_def pcc_hashtable_create_def Let_def ht_entries_def ht_keys_def
      concat_replicate_Nil placed_replicate INITIAL_CAPACITY_def)

lemma put_result:
  fixes t :: "'v PCCHashTable" and k :: string and v :: "'v option"
  assumes inv: "ht_inv t"
  defines "t' \<equiv> snd (pcc_hashtable_put t k v)"
  shows "fst (pcc_hashtable_put t k v) = PCC_SUCCESS"
    and "ht_inv t'"
    and "pcc_hashtable_get t' k = v"
    and "\<forall>k'. k' \<noteq> k \<longrightarrow> pcc_hashtable_get t' k' = pcc_hashtable_get t k'"
    and "set (ht_keys t') = insert k (set (ht_keys t))"
    and "ht_size t' = (if k \<in> set (ht_keys t) then ht_size t else ht_size t + 1)"
    and "length (ht_entries t') =
           (if k \<in> set (ht_keys t) then length (ht_entries t) else length (ht_entries t) + 1)"
proof -
  define grow where "grow \<longleftrightarrow> capacity t * 3 div 4 < ht_size t"
  define t1 where "t1 = (if grow then snd (pcc_hashtable_resize t (capacity t * 2)) else t)"
  from inv have cap: "0 < capacity t" and len: "length (buckets t) = capacity t"
    and sz: "ht_size t = length (ht_entries t)" and bound: "ht_size t \<le> 2 * capacity t"
    and dist: "distinct (ht_keys t)"
    and placed: "chains_placed (hash_func t) (capacity t) (buckets t)"
    by (simp_all add: ht_inv_def)
  have fit: "ht_size t \<le> capacity t * 2" and pos2: "0 < capacity t * 2"
    using bound cap by simp_all
  note rs = resize_ok [OF inv fit pos2]
  have first: "(if grow then pcc_hashtable_resize t (capacity t * 2) else (PCC_SUCCESS, t))
               = (PCC_SUCCESS, t1)"
    using rs(1) by (simp add: t1_def prod_eq_iff)
  have cap1: "0 < capacity t1" and len1: "length (buckets t1) = capacity t1"
    and hf1: "hash_func t1 = hash_func t" and size1: "ht_size t1 = ht_size t"
    and ms1: "mset (ht_entries t1) = mset (ht_entries t)"
    using cap len rs(2-6) by (simp_all add: t1_def)
  have placed1: "chains_placed (hash_func t1) (capacity t1) (buckets t1)"
    using placed rs(2,4,7) by (simp add: t1_def)
  have keys1: "set (ht_keys t1) = set (ht_keys t)" and dist1: "distinct (ht_keys t1)"
    and elen1: "length (ht_entries t1) = length (ht_entries t)"
    using mset_entries_keys [OF ms1] dist by (simp_all add: ht_keys_def)
  have sz1: "ht_size t1 = length (ht_entries t1)"
    using size1 sz elen1 by simp
  have room: "ht_size t1 + 1 \<le> 2 * capacity t1"
  proof (cases grow)
    case True
    then have "capacity t1 = capacity t * 2"
      using rs(2) by (simp add: t1_def)
    with size1 bound cap show ?thesis by simp
  next
    case False
    then have "ht_size t \<le> capacity t * 3 div 4" and "t1 = t"
      by (simp_all add: grow_def t1_def)
    with cap show ?thesis by simp
  qed
  have get1: "pcc_hashtable_get t1 k' = pcc_hashtable_get t k'" for k'
  proof -
    have "map_of (ht_entries t1) = map_of (ht_entries t)"
      using mset_entries_map_of [OF ms1] dist1 by (simp add: ht_keys_def)
    then show ?thesis
      using get_map_of [OF cap1 len1 placed1] get_map_of [OF cap len placed] by simp
  qed
  define i where "i = bucket_index (hash_func t1) (capacity t1) k"
  define r where "r = chain_put k v (buckets t1 ! i)"
  define t2 where "t2 = t1\<lparr> buckets := (buckets t1)[i := fst r],
                            ht_size := (if snd r then ht_size t1 + 1 else ht_size t1) \<rparr>"
  have put_eq: "pcc_hashtable_put t k v = (PCC_SUCCESS, t2)"
    unfolding pcc_hashtable_put_def grow_def [symmetric] first
    by (simp add: Let_def case_prod_beta t2_def r_def i_def)
  note st = put_step [OF cap1 len1 sz1 dist1 placed1, of k v,
      folded i_def, folded r_def, folded t2_def]
  have t': "t' = t2"
    by (simp add: t'_def put_eq)
  show "fst (pcc_hashtable_put t k v) = PCC_SUCCESS"
    by (simp add: put_eq)
  show "pcc_hashtable_get t' k = v"
    using st(9) t' by simp
  show "\<forall>k'. k' \<noteq> k \<longrightarrow> pcc_hashtable_get t' k' = pcc_hashtable_get t k'"
    using st(10) get1 t' by simp
  show "set (ht_keys t') = insert k (set (ht_keys t))"
    using st(4) keys1 t' by simp
  show l: "length (ht_entries t') =
           (if k \<in> set (ht_keys t) then length (ht_entries t) else length (ht_entries t) + 1)"
    using st(5) keys1 elen1 t' by simp
  show s: "ht_size t' = (if k \<in> set (ht_keys t) then ht_size t else ht_size t + 1)"
    using st(6) l sz t' by simp
  show "ht_inv t'"
    unfolding ht_inv_def t'
    using st(1,2,6,7,8) cap1 s room size1 t' by (simp split: if_splits)
qed


lemma replicate_numeral: "replicate (numeral k) x = x # replicate (pred_numeral k) x"
  by (simp add: numeral_eq_Suc)

lemma list_update_numeral: "(x # xs)[numeral k := y] = x # xs[pred_numeral k := y]"
  by (simp add: numeral_eq_Suc)

lemmas ht_eval =
  pcc_hashtable_put_def pcc_hashtable_get_def pcc_hashtable_create_def pcc_hashtable_resize_def
  pcc_hashtable_contains_def
  bucket_index_def pcc_default_hash_def char_to_int_def Let_def
  replicate_numeral list_update_numeral INITIAL_CAPACITY_def
  ht_inv_def ht_entries_def ht_keys_def chains_placed_def

text \<open>A table of two buckets holding the key \<open>x\<close>, for concrete runs.\<close>

definition ht_demo :: "nat PCCHashTable" where
  "ht_demo = snd (pcc_hashtable_put (pcc_hashtable_create 2 None) ''x'' (Some 1))"

text \<open>
  C10.  The hash map keeps keys unique.  On every well-formed table (such as
  \<open>pcc_hashtable_create\<close> builds and \<open>pcc_hashtable_put\<close> keeps, see \<open>create_inv\<close> and
  \<open>put_result\<close>), \<open>pcc_hashtable_put\<close> succeeds and leaves a well-formed table without a
  repeated key; a key that was present keeps the number of entries and the \<open>size\<close> field and
  the set of keys, a key that was absent adds exactly one entry; in both cases
  \<open>pcc_hashtable_get\<close> of that key then returns the value just stored.
\<close>

theorem pcc_hashtable_put_keeps_keys_unique:
  fixes t :: "'v PCCHashTable"
  assumes "ht_inv t"
  shows "case pcc_hashtable_put t k v of (err, t') \<Rightarrow>
           err = PCC_SUCCESS \<and> ht_inv t' \<and> distinct (ht_keys t') \<and>
           pcc_hashtable_get t' k = v \<and>
           (if k \<in> set (ht_keys t)
            then ht_size t' = ht_size t \<and> length (ht_entries t') = length (ht_entries t) \<and>
                 set (ht_keys t') = set (ht_keys t)
            else ht_size t' = ht_size t + 1 \<and> length (ht_entries t') = length (ht_entries t) + 1 \<and>
                 set (ht_keys t') = insert k (set (ht_keys t)))"
proof -
  note r = put_result [OF assms, of k v]
  have "distinct (ht_keys (snd (pcc_hashtable_put t k v)))"
    using r(2) by (simp add: ht_inv_def)
  with r show ?thesis
    by (auto simp: case_prod_beta)
qed

theorem pcc_hashtable_put_keeps_keys_unique_witness:
  "ht_inv ht_demo \<and>
   (case pcc_hashtable_put ht_demo ''x'' (Some 2) of (err, t') \<Rightarrow>
      err = PCC_SUCCESS \<and> pcc_hashtable_get t' ''x'' = Some 2 \<and> ht_size t' = 1 \<and>
      ht_keys t' = [''x'']) \<and>
   (case pcc_hashtable_put ht_demo ''y'' (Some 5) of (err, t') \<Rightarrow>
      err = PCC_SUCCESS \<and> pcc_hashtable_get t' ''y'' = Some 5 \<and> ht_size t' = 2 \<and>
      capacity t' = 2)"
proof -
  have h: "ht_inv ht_demo"
    by (simp add: ht_demo_def ht_eval)
  show ?thesis
    using h pcc_hashtable_put_keeps_keys_unique [OF h, of "''x''" "Some 2"]
      pcc_hashtable_put_keeps_keys_unique [OF h, of "''y''" "Some 5"]
    by (simp add: ht_demo_def ht_eval)
qed

section \<open>Symbol table (symbol_table.h, symbol_table.c)\<close>

text \<open>
  A \<open>Scope*\<close> is the index of the scope in \<open>all_scopes\<close>, the registry on which
  \<open>symbol_table_create\<close> and \<open>symbol_table_enter_scope\<close> push every scope they
  allocate, in this order; \<open>parent\<close> is \<open>None\<close> for the \<open>NULL\<close> link.  The fields
  \<open>name\<close>, \<open>type\<close>, \<open>data\<close> and \<open>position\<close> of a \<open>Symbol\<close> carry the prefix
  \<open>sym_\<close>, \<open>position\<close> of a \<open>SemanticError\<close> is \<open>err_position\<close>.  The value that a
  scope's table stores under a name is the symbol itself, standing for the pointer to it.
\<close>

datatype SymbolType =
    SYMBOL_VARIABLE
  | SYMBOL_TEMPLATE
  | SYMBOL_PROMPT
  | SYMBOL_CONSTRAINT
  | SYMBOL_PARAMETER
  | SYMBOL_UNKNOWN

record 'n Symbol =
  sym_name :: string
  sym_type :: SymbolType
  sym_data :: "'n option"
  is_defined :: int
  is_used :: int
  sym_position :: PCCPosition

record 'n Scope =
  symbols :: "'n Symbol PCCHashTable"
  parent :: "nat option"
  scope_level :: int

record SemanticError =
  message :: string
  err_position :: PCCPosition
  error_code :: int

record 'n SymbolTable =
  current_scope :: nat
  global_scope :: nat
  all_scopes :: "'n Scope list"
  errors :: "SemanticError list"

definition SEM_ERROR_UNDEFINED_SYMBOL :: int where "SEM_ERROR_UNDEFINED_SYMBOL = 1"
definition SEM_ERROR_REDEFINED_SYMBOL :: int where "SEM_ERROR_REDEFINED_SYMBOL = 2"
definition SEM_ERROR_TYPE_MISMATCH :: int where "SEM_ERROR_TYPE_MISMATCH = 3"

definition symbol_create :: "string \<Rightarrow> SymbolType \<Rightarrow> 'n option \<Rightarrow> PCCPosition \<Rightarrow> 'n Symbol" where
  "symbol_create name type data position =
     \<lparr> sym_name = name, sym_type = type, sym_data = data, is_defined = 1, is_used = 0,
       sym_position = position \<rparr>"

definition scope_create :: "nat option \<Rightarrow> int \<Rightarrow> 'n Scope" where
  "scope_create parent_scope level =
     \<lparr> symbols = pcc_hashtable_create INITIAL_CAPACITY None, parent = parent_scope,
       scope_level = level \<rparr>"

definition symbol_table_create :: "'n SymbolTable" where
  "symbol_table_create =
     \<lparr> current_scope = 0, global_scope = 0, all_scopes = [scope_create None 0], errors = [] \<rparr>"

definition the_current_scope :: "'n SymbolTable \<Rightarrow> 'n Scope" where
  "the_current_scope table = all_scopes table ! current_scope table"

definition symbol_table_enter_scope :: "'n SymbolTable \<Rightarrow> PCCError \<times> 'n SymbolTable" where
  "symbol_table_enter_scope table =
     (let new_scope = scope_create (Some (current_scope table))
                        (scope_level (the_current_scope table) + 1)
      in (PCC_SUCCESS,
          table\<lparr> current_scope := length (all_scopes table),
                  all_scopes := all_scopes table @ [new_scope] \<rparr>))"

definition symbol_table_exit_scope :: "'n SymbolTable \<Rightarrow> PCCError \<times> 'n SymbolTable" where
  "symbol_table_exit_scope table =
     (case parent (the_current_scope table) of
        None \<Rightarrow> (PCC_ERROR_RUNTIME, table)
      | Some p \<Rightarrow> (PCC_SUCCESS, table\<lparr> current_scope := p \<rparr>))"

definition symbol_table_add_error ::
  "'n SymbolTable \<Rightarrow> string \<Rightarrow> PCCPosition \<Rightarrow> int \<Rightarrow> PCCError \<times> 'n SymbolTable" where
  "symbol_table_add_error table msg position code =
     (PCC_SUCCESS,
      table\<lparr> errors := errors table @
                [\<lparr> message = msg, err_position = position, error_code = code \<rparr>] \<rparr>)"

text \<open>\<open>snprintf\<close> into a buffer of 512 bytes keeps at most 511 characters.\<close>

definition snprintf512 :: "string \<Rightarrow> string" where
  "snprintf512 s = take 511 s"

definition symbol_table_add :: "'n SymbolTable \<Rightarrow> 'n Symbol \<Rightarrow> PCCError \<times> 'n SymbolTable" where
  "symbol_table_add table symbol =
     (if pcc_hashtable_contains (symbols (the_current_scope table)) (sym_name symbol)
      then
        (let error_msg = snprintf512
               (''Symbol '' @ [CHR 0x27] @ sym_name symbol @ [CHR 0x27] @ '' already defined in this scope'')
         in (PCC_ERROR_SEMANTIC,
             snd (symbol_table_add_error table error_msg (sym_position symbol)
                    SEM_ERROR_REDEFINED_SYMBOL)))
      else
        (case pcc_hashtable_put (symbols (the_current_scope table)) (sym_name symbol) (Some symbol) of
           (err, symbols') \<Rightarrow>
             (err,
              table\<lparr> all_scopes := (all_scopes table)
                        [current_scope table := (the_current_scope table)\<lparr> symbols := symbols' \<rparr>] \<rparr>)))"

text \<open>
  The \<open>while\<close> loop of \<open>symbol_table_lookup\<close> along the parent links.  The result is the
  symbol found and the scope that holds it, \<open>Some None\<close> when the chain ends without a
  match, and \<open>None\<close> when the loop does not end (parent links that form a cycle).
\<close>

partial_function (option) lookup_scope ::
  "'n Scope list \<Rightarrow> nat option \<Rightarrow> string \<Rightarrow> (nat \<times> 'n Symbol) option option" where
  "lookup_scope scopes scope name =
     (case scope of
        None \<Rightarrow> Some None
      | Some s \<Rightarrow>
          (case pcc_hashtable_get (symbols (scopes ! s)) name of
             Some symbol \<Rightarrow> Some (Some (s, symbol))
           | None \<Rightarrow> lookup_scope scopes (parent (scopes ! s)) name))"

definition symbol_table_lookup :: "'n SymbolTable \<Rightarrow> string \<Rightarrow> 'n Symbol option option" where
  "symbol_table_lookup table name =
     map_option (map_option snd) (lookup_scope (all_scopes table) (Some (current_scope table)) name)"

definition symbol_table_lookup_local :: "'n SymbolTable \<Rightarrow> string \<Rightarrow> 'n Symbol option" where
  "symbol_table_lookup_local table name =
     pcc_hashtable_get (symbols (the_current_scope table)) name"


text \<open>\<open>symbol->is_used = 1\<close> through the pointer that the lookup returned: the entry of the
  symbol in the scope where it was found holds the changed symbol.\<close>

definition symbol_set_used :: "'n Scope \<Rightarrow> string \<Rightarrow> 'n Scope" where
  "symbol_set_used scope name =
     scope\<lparr> symbols := (symbols scope)\<lparr> buckets :=
       map (map (\<lambda>e. if fst e = name
                       then (fst e, map_option (\<lambda>s. s\<lparr> is_used := 1 \<rparr>) (snd e)) else e))
         (buckets (symbols scope)) \<rparr> \<rparr>"

definition unknown_position :: PCCPosition where
  "unknown_position = \<lparr> line = 0, column = 0, filename = ''<unknown>'' \<rparr>"

definition symbol_table_mark_used ::
  "'n SymbolTable \<Rightarrow> string \<Rightarrow> (PCCError \<times> 'n SymbolTable) option" where
  "symbol_table_mark_used table name =
     (case lookup_scope (all_scopes table) (Some (current_scope table)) name of
        None \<Rightarrow> None
      | Some None \<Rightarrow>
          (let error_msg = snprintf512 (''Undefined symbol '' @ [CHR 0x27] @ name @ [CHR 0x27])
           in Some (PCC_ERROR_SEMANTIC,
                snd (symbol_table_add_error table error_msg unknown_position
                       SEM_ERROR_UNDEFINED_SYMBOL)))
      | Some (Some (s, symbol)) \<Rightarrow>
          Some (PCC_SUCCESS,
                table\<lparr> all_scopes := (all_scopes table)
                          [s := symbol_set_used (all_scopes table ! s) name] \<rparr>))"

definition symbol_table_error_count :: "'n SymbolTable \<Rightarrow> nat" where
  "symbol_table_error_count table = length (errors table)"

subsection \<open>Well-formed symbol tables\<close>

definition ht_values_nonnull :: "'v PCCHashTable \<Rightarrow> bool" where
  "ht_values_nonnull table = list_all (\<lambda>k. pcc_hashtable_get table k \<noteq> None) (ht_keys table)"

definition scope_ok :: "'n Scope list \<Rightarrow> nat \<times> 'n Scope \<Rightarrow> bool" where
  "scope_ok scopes = (\<lambda>(i, scope).
     ht_inv (symbols scope) \<and> ht_values_nonnull (symbols scope) \<and>
     (if i = 0 then parent scope = None \<and> scope_level scope = 0
      else case parent scope of
             None \<Rightarrow> False
           | Some p \<Rightarrow> p < i \<and> scope_level scope = scope_level (scopes ! p) + 1))"

definition symtab_inv :: "'n SymbolTable \<Rightarrow> bool" where
  "symtab_inv table \<longleftrightarrow>
     all_scopes table \<noteq> [] \<and>
     global_scope table = 0 \<and>
     current_scope table < length (all_scopes table) \<and>
     list_all (scope_ok (all_scopes table)) (enumerate 0 (all_scopes table))"

text \<open>The scope at which the parent links starting from a scope end.\<close>

partial_function (option) chain_root :: "'n Scope list \<Rightarrow> nat \<Rightarrow> nat option" where
  "chain_root scopes s =
     (case parent (scopes ! s) of
        None \<Rightarrow> Some s
      | Some p \<Rightarrow> chain_root scopes p)"

inductive reachable :: "'n SymbolTable \<Rightarrow> bool" where
  r_create: "reachable symbol_table_create"
| r_enter: "reachable table \<Longrightarrow> reachable (snd (symbol_table_enter_scope table))"
| r_exit: "reachable table \<Longrightarrow> reachable (snd (symbol_table_exit_scope table))"
| r_add: "reachable table \<Longrightarrow> reachable (snd (symbol_table_add table symbol))"
| r_add_error:
    "reachable table \<Longrightarrow> reachable (snd (symbol_table_add_error table msg position code))"
| r_mark_used:
    "reachable table \<Longrightarrow> symbol_table_mark_used table name = Some (err, table') \<Longrightarrow>
     reachable table'"

lemma scope_ok_all:
  "list_all (scope_ok scopes) (enumerate 0 scopes') \<longleftrightarrow>
     (\<forall>i < length scopes'. scope_ok scopes (i, scopes' ! i))"
  by (auto simp: list_all_iff in_set_enumerate_eq)

lemma symtab_inv_iff:
  "symtab_inv table \<longleftrightarrow>
     all_scopes table \<noteq> [] \<and> global_scope table = 0 \<and>
     current_scope table < length (all_scopes table) \<and>
     (\<forall>i < length (all_scopes table). scope_ok (all_scopes table) (i, all_scopes table ! i))"
  by (simp add: symtab_inv_def scope_ok_all)


subsection \<open>Scopes keep their table well-formed\<close>

lemma get_absent:
  assumes "ht_inv t" and "k \<notin> set (ht_keys t)"
  shows "pcc_hashtable_get t k = None"
proof -
  from assms(1) have a: "0 < capacity t" "length (buckets t) = capacity t"
    "chains_placed (hash_func t) (capacity t) (buckets t)"
    by (simp_all add: ht_inv_def)
  have "map_of (ht_entries t) k = None"
    using assms(2) by (simp add: map_of_eq_None_iff ht_keys_def)
  with get_map_of [OF a] show ?thesis by simp
qed

lemma contains_iff_key:
  assumes "ht_inv t" and "ht_values_nonnull t"
  shows "pcc_hashtable_contains t k \<longleftrightarrow> k \<in> set (ht_keys t)"
proof (cases "k \<in> set (ht_keys t)")
  case True
  with assms(2) show ?thesis
    by (simp add: pcc_hashtable_contains_def ht_values_nonnull_def list_all_iff)
next
  case False
  with get_absent [OF assms(1)] show ?thesis
    by (simp add: pcc_hashtable_contains_def)
qed

lemma put_nonnull:
  assumes "ht_inv t" and "ht_values_nonnull t"
  shows "ht_values_nonnull (snd (pcc_hashtable_put t k (Some x)))"
  using assms(2) put_result(3,4,5) [OF assms(1), of k "Some x"]
  by (auto simp: ht_values_nonnull_def list_all_iff)

lemma create_nonnull: "ht_values_nonnull (pcc_hashtable_create n hf)"
  by (simp add: ht_values_nonnull_def ht_keys_def ht_entries_def pcc_hashtable_create_def
      Let_def concat_replicate_Nil)

lemma chain_get_map_value:
  "chain_get k (map (\<lambda>e. if fst e = name then (fst e, f (snd e)) else e) ch) =
     (if k = name then (if k \<in> set (map fst ch) then f (chain_get k ch) else None)
      else chain_get k ch)"
  by (induction ch) force+

lemma set_used_keys:
  "map fst (map (\<lambda>e. if fst e = name then (fst e, f (snd e)) else e) ch) = map fst ch"
  by (induction ch) auto

lemma set_used_entries:
  "map fst (concat (map (map (\<lambda>e. if fst e = name then (fst e, f (snd e)) else e)) bs)) =
     map fst (concat bs)"
proof (induction bs)
  case Nil
  then show ?case by simp
next
  case (Cons b bs)
  then show ?case
    using set_used_keys [of name f b] by simp
qed

lemma set_used_placed:
  assumes "chains_placed hf cap bs"
  shows "chains_placed hf cap
           (map (map (\<lambda>e. if fst e = name then (fst e, f (snd e)) else e)) bs)"
  using assms unfolding chains_placed_iff
  by (fastforce split: if_splits)

lemma set_used_inv:
  assumes "ht_inv (symbols scope)"
  shows "ht_inv (symbols (symbol_set_used scope name))"
proof -
  have k: "ht_keys (symbols (symbol_set_used scope name)) = ht_keys (symbols scope)"
    by (simp add: symbol_set_used_def ht_keys_def ht_entries_def set_used_entries)
  have l: "length (ht_entries (symbols (symbol_set_used scope name))) =
           length (ht_entries (symbols scope))"
    using k by (metis ht_keys_def length_map)
  from assms k l show ?thesis
    by (simp add: ht_inv_def) (simp add: symbol_set_used_def set_used_placed)
qed

lemma chain_get_absent: "k \<notin> set (map fst ch) \<Longrightarrow> chain_get k ch = None"
  by (induction ch) auto

lemma set_used_get:
  assumes "ht_inv (symbols scope)"
  shows "pcc_hashtable_get (symbols (symbol_set_used scope name)) k =
           (if k = name then map_option (\<lambda>s. s\<lparr> is_used := 1 \<rparr>) (pcc_hashtable_get (symbols scope) k)
            else pcc_hashtable_get (symbols scope) k)"
proof -
  from assms have a: "0 < capacity (symbols scope)"
    "length (buckets (symbols scope)) = capacity (symbols scope)"
    by (simp_all add: ht_inv_def)
  then have i: "bucket_index (hash_func (symbols scope)) (capacity (symbols scope)) k
                  < length (buckets (symbols scope))"
    by (simp add: bucket_index_less)
  then show ?thesis
    using chain_get_absent [of k]
    by (auto simp: pcc_hashtable_get_def symbol_set_used_def chain_get_map_value)
qed

lemma set_used_nonnull:
  assumes "ht_inv (symbols scope)" and "ht_values_nonnull (symbols scope)"
  shows "ht_values_nonnull (symbols (symbol_set_used scope name))"
proof -
  have k: "ht_keys (symbols (symbol_set_used scope name)) = ht_keys (symbols scope)"
    by (simp add: symbol_set_used_def ht_keys_def ht_entries_def set_used_entries)
  show ?thesis
    using assms(2) unfolding ht_values_nonnull_def k list_all_iff
    by (auto simp: set_used_get [OF assms(1)])
qed


subsection \<open>Every operation keeps the symbol table well-formed\<close>

lemma inv_create: "symtab_inv (symbol_table_create :: 'n SymbolTable)"
  by (simp add: symtab_inv_iff symbol_table_create_def scope_ok_def scope_create_def
      create_inv create_nonnull)

lemma inv_add_error:
  "symtab_inv table \<Longrightarrow> symtab_inv (snd (symbol_table_add_error table msg position code))"
  by (simp add: symtab_inv_iff symbol_table_add_error_def)

lemma inv_enter:
  assumes "symtab_inv table"
  shows "symtab_inv (snd (symbol_table_enter_scope table))"
proof -
  let ?scopes = "all_scopes table"
  let ?new = "scope_create (Some (current_scope table)) (scope_level (the_current_scope table) + 1)
                :: 'a Scope"
  from assms have ne: "?scopes \<noteq> []" and g: "global_scope table = 0"
    and cur: "current_scope table < length ?scopes"
    and ok: "\<forall>i < length ?scopes. scope_ok ?scopes (i, ?scopes ! i)"
    by (simp_all add: symtab_inv_iff)
  have "scope_ok (?scopes @ [?new]) (i, (?scopes @ [?new]) ! i)" if "i < length ?scopes + 1" for i
  proof (cases "i < length ?scopes")
    case True
    with ok have "scope_ok ?scopes (i, ?scopes ! i)" by simp
    with True show ?thesis
      by (auto simp: scope_ok_def nth_append split: option.splits if_splits)
  next
    case False
    with that have i: "i = length ?scopes" by simp
    with ne have "i \<noteq> 0" by simp
    with i cur show ?thesis
      by (simp add: scope_ok_def scope_create_def create_inv create_nonnull nth_append
          the_current_scope_def)
  qed
  with ne g cur show ?thesis
    by (simp add: symtab_inv_iff symbol_table_enter_scope_def Let_def)
qed

lemma inv_exit:
  assumes "symtab_inv table"
  shows "symtab_inv (snd (symbol_table_exit_scope table))"
proof (cases "parent (the_current_scope table)")
  case None
  with assms show ?thesis
    by (simp add: symbol_table_exit_scope_def)
next
  case (Some p)
  from assms have cur: "current_scope table < length (all_scopes table)"
    and ok: "scope_ok (all_scopes table) (current_scope table, the_current_scope table)"
    by (simp_all add: symtab_inv_iff the_current_scope_def)
  from ok Some have "p < current_scope table"
    by (simp add: scope_ok_def split: if_splits)
  with cur assms Some show ?thesis
    by (simp add: symtab_inv_iff symbol_table_exit_scope_def)
qed

lemma scope_ok_symbols_update:
  assumes ok: "\<forall>i < length scopes. scope_ok scopes (i, scopes ! i)"
    and c: "c < length scopes"
    and h: "ht_inv tbl" "ht_values_nonnull tbl"
  shows "\<forall>i < length scopes.
           scope_ok (scopes[c := (scopes ! c)\<lparr> symbols := tbl \<rparr>])
             (i, scopes[c := (scopes ! c)\<lparr> symbols := tbl \<rparr>] ! i)"
proof (intro allI impI)
  fix i assume i: "i < length scopes"
  let ?scopes' = "scopes[c := (scopes ! c)\<lparr> symbols := tbl \<rparr>]"
  have lev: "scope_level (?scopes' ! p) = scope_level (scopes ! p)" if "p < length scopes" for p
    using that c by (simp add: nth_list_update)
  from ok i have "scope_ok scopes (i, scopes ! i)" by simp
  with i c h lev show "scope_ok ?scopes' (i, ?scopes' ! i)"
    by (auto simp: scope_ok_def nth_list_update split: option.splits if_splits)
qed

lemma inv_add:
  assumes "symtab_inv table"
  shows "symtab_inv (snd (symbol_table_add table symbol))"
proof (cases "pcc_hashtable_contains (symbols (the_current_scope table)) (sym_name symbol)")
  case True
  with assms inv_add_error show ?thesis
    by (simp add: symbol_table_add_def Let_def)
next
  case False
  let ?tbl = "symbols (the_current_scope table)"
  from assms have cur: "current_scope table < length (all_scopes table)"
    and ok: "\<forall>i < length (all_scopes table). scope_ok (all_scopes table) (i, all_scopes table ! i)"
    by (simp_all add: symtab_inv_iff)
  then have h: "ht_inv ?tbl" "ht_values_nonnull ?tbl"
    by (auto simp: scope_ok_def the_current_scope_def)
  have h': "ht_inv (snd (pcc_hashtable_put ?tbl (sym_name symbol) (Some symbol)))"
    "ht_values_nonnull (snd (pcc_hashtable_put ?tbl (sym_name symbol) (Some symbol)))"
    using put_result(2) [OF h(1)] put_nonnull [OF h] by simp_all
  from scope_ok_symbols_update [OF ok cur h'] assms False show ?thesis
    by (simp add: symbol_table_add_def symtab_inv_iff case_prod_beta the_current_scope_def)
qed

lemma scope_ok_set_used:
  assumes ok: "\<forall>i < length scopes. scope_ok scopes (i, scopes ! i)"
  shows "\<forall>i < length scopes.
           scope_ok (scopes[s := symbol_set_used (scopes ! s) name])
             (i, scopes[s := symbol_set_used (scopes ! s) name] ! i)"
proof (cases "s < length scopes")
  case False
  with ok show ?thesis by (simp add: list_update_beyond)
next
  case True
  from ok True have "scope_ok scopes (s, scopes ! s)" by simp
  then have h: "ht_inv (symbols (scopes ! s))" "ht_values_nonnull (symbols (scopes ! s))"
    by (simp_all add: scope_ok_def)
  have eq: "symbol_set_used (scopes ! s) name =
            (scopes ! s)\<lparr> symbols := symbols (symbol_set_used (scopes ! s) name) \<rparr>"
    by (simp add: symbol_set_used_def)
  show ?thesis
    using scope_ok_symbols_update [OF ok True set_used_inv [OF h(1), of name]
        set_used_nonnull [OF h, of name]]
    by (subst (1 2) eq) simp
qed

lemma inv_mark_used:
  assumes "symtab_inv table" and "symbol_table_mark_used table name = Some (err, table')"
  shows "symtab_inv table'"
proof -
  from assms(1) have ok:
    "\<forall>i < length (all_scopes table). scope_ok (all_scopes table) (i, all_scopes table ! i)"
    by (simp add: symtab_inv_iff)
  from assms show ?thesis
    using inv_add_error [OF assms(1)] scope_ok_set_used [OF ok]
    by (auto simp: symbol_table_mark_used_def Let_def symtab_inv_iff
        split: option.splits)
qed

lemma reachable_inv: "reachable table \<Longrightarrow> symtab_inv table"
  by (induction rule: reachable.induct)
     (simp_all add: inv_create inv_enter inv_exit inv_add inv_add_error inv_mark_used)


subsection \<open>The parent chain\<close>

lemma chain_root_global:
  assumes ok: "\<forall>i < length scopes. scope_ok scopes (i, scopes ! i)"
  shows "s < length scopes \<Longrightarrow> chain_root scopes s = Some 0"
proof (induction s rule: less_induct)
  case (less s)
  from ok less.prems have sk: "scope_ok scopes (s, scopes ! s)" by simp
  show ?case
  proof (cases "s = 0")
    case True
    with sk show ?thesis
      by (subst chain_root.simps) (simp add: scope_ok_def)
  next
    case False
    with sk obtain p where p: "parent (scopes ! s) = Some p" "p < s"
      by (auto simp: scope_ok_def split: option.splits)
    with less.prems have "chain_root scopes p = Some 0"
      by (intro less.IH) simp_all
    with p show ?thesis
      by (subst chain_root.simps) simp
  qed
qed

lemma other_scopes_have_parent:
  assumes "symtab_inv table" and "i < length (all_scopes table)" and "i \<noteq> global_scope table"
  shows "\<exists>p. parent (all_scopes table ! i) = Some p \<and> p < i"
proof -
  from assms have "scope_ok (all_scopes table) (i, all_scopes table ! i)" and "i \<noteq> 0"
    by (simp_all add: symtab_inv_iff)
  then show ?thesis
    by (auto simp: scope_ok_def split: option.splits)
qed

lemma global_scope_root:
  assumes "symtab_inv table"
  shows "parent (all_scopes table ! global_scope table) = None"
    and "scope_level (all_scopes table ! global_scope table) = 0"
proof -
  from assms have "scope_ok (all_scopes table) (0, all_scopes table ! 0)" and "global_scope table = 0"
    by (simp_all add: symtab_inv_iff)
  then show "parent (all_scopes table ! global_scope table) = None"
    and "scope_level (all_scopes table ! global_scope table) = 0"
    by (simp_all add: scope_ok_def)
qed

text \<open>
  C8.  In every symbol table reachable from \<open>symbol_table_create\<close> by the operations of
  the module, the global scope has no parent and level 0, every other scope has a parent
  (its single \<open>parent\<close> link), and following the parent links from the current scope
  ends, after finitely many steps, at the global scope.  \<open>symbol_table_enter_scope\<close>
  succeeds, registers one new scope, makes it current, with the former current scope as
  parent and a level one higher.  \<open>symbol_table_exit_scope\<close> fails with the table
  unchanged when the current scope is the global one, and otherwise makes the parent current.
\<close>

theorem symbol_table_scope_chain:
  assumes "reachable table"
  shows "parent (all_scopes table ! global_scope table) = None \<and>
         scope_level (all_scopes table ! global_scope table) = 0 \<and>
         (\<forall>i < length (all_scopes table). i \<noteq> global_scope table \<longrightarrow>
              (\<exists>p. parent (all_scopes table ! i) = Some p \<and> p < length (all_scopes table))) \<and>
         current_scope table < length (all_scopes table) \<and>
         chain_root (all_scopes table) (current_scope table) = Some (global_scope table) \<and>
         (case symbol_table_enter_scope table of (err, table') \<Rightarrow>
            err = PCC_SUCCESS \<and>
            current_scope table' = length (all_scopes table) \<and>
            take (length (all_scopes table)) (all_scopes table') = all_scopes table \<and>
            parent (the_current_scope table') = Some (current_scope table) \<and>
            scope_level (the_current_scope table') = scope_level (the_current_scope table) + 1) \<and>
         (if current_scope table = global_scope table
          then symbol_table_exit_scope table = (PCC_ERROR_RUNTIME, table)
          else \<exists>p. parent (the_current_scope table) = Some p \<and>
                   symbol_table_exit_scope table = (PCC_SUCCESS, table\<lparr> current_scope := p \<rparr>))"
proof -
  from assms have inv: "symtab_inv table" by (rule reachable_inv)
  then have cur: "current_scope table < length (all_scopes table)"
    and g: "global_scope table = 0"
    and ok: "\<forall>i < length (all_scopes table). scope_ok (all_scopes table) (i, all_scopes table ! i)"
    by (simp_all add: symtab_inv_iff)
  have others: "\<forall>i < length (all_scopes table). i \<noteq> global_scope table \<longrightarrow>
              (\<exists>p. parent (all_scopes table ! i) = Some p \<and> p < length (all_scopes table))"
    using other_scopes_have_parent [OF inv] by (meson less_trans)
  have root: "chain_root (all_scopes table) (current_scope table) = Some (global_scope table)"
    using chain_root_global [OF ok cur] g by simp
  have enter: "case symbol_table_enter_scope table of (err, table') \<Rightarrow>
            err = PCC_SUCCESS \<and>
            current_scope table' = length (all_scopes table) \<and>
            take (length (all_scopes table)) (all_scopes table') = all_scopes table \<and>
            parent (the_current_scope table') = Some (current_scope table) \<and>
            scope_level (the_current_scope table') = scope_level (the_current_scope table) + 1"
    by (simp add: symbol_table_enter_scope_def Let_def the_current_scope_def scope_create_def)
  have exit: "if current_scope table = global_scope table
          then symbol_table_exit_scope table = (PCC_ERROR_RUNTIME, table)
          else \<exists>p. parent (the_current_scope table) = Some p \<and>
                   symbol_table_exit_scope table = (PCC_SUCCESS, table\<lparr> current_scope := p \<rparr>)"
  proof (cases "current_scope table = global_scope table")
    case True
    with global_scope_root(1) [OF inv] show ?thesis
      by (simp add: symbol_table_exit_scope_def the_current_scope_def)
  next
    case False
    with other_scopes_have_parent [OF inv cur] show ?thesis
      by (auto simp: symbol_table_exit_scope_def the_current_scope_def)
  qed
  from global_scope_root [OF inv] others cur root enter exit show ?thesis
    by blast
qed


text \<open>
  C4.  On every well-formed symbol table (every reachable one is, by \<open>reachable_inv\<close>),
  \<open>symbol_table_add\<close> looks at the current scope only.  If that scope already holds the
  name, the call returns \<open>PCC_ERROR_SEMANTIC\<close> and the only change is one redefinition
  error appended to the error list: no scope's map changes.  Otherwise, whatever the
  enclosing scopes hold, it returns success, records no error, stores the symbol under its
  name in the current scope and changes no other scope and no other key.
\<close>

theorem symbol_table_add_redefinition:
  assumes "symtab_inv table"
  shows "if sym_name symbol \<in> set (ht_keys (symbols (the_current_scope table)))
         then symbol_table_add table symbol =
                (PCC_ERROR_SEMANTIC,
                 table\<lparr> errors := errors table @
                   [\<lparr> message = snprintf512 (''Symbol '' @ [CHR 0x27] @ sym_name symbol @ [CHR 0x27] @
                                   '' already defined in this scope''),
                      err_position = sym_position symbol,
                      error_code = SEM_ERROR_REDEFINED_SYMBOL \<rparr>] \<rparr>)
         else (case symbol_table_add table symbol of (err, table') \<Rightarrow>
                 err = PCC_SUCCESS \<and> errors table' = errors table \<and>
                 current_scope table' = current_scope table \<and>
                 global_scope table' = global_scope table \<and>
                 length (all_scopes table') = length (all_scopes table) \<and>
                 (\<forall>i. i \<noteq> current_scope table \<longrightarrow> all_scopes table' ! i = all_scopes table ! i) \<and>
                 parent (the_current_scope table') = parent (the_current_scope table) \<and>
                 scope_level (the_current_scope table') = scope_level (the_current_scope table) \<and>
                 pcc_hashtable_get (symbols (the_current_scope table')) (sym_name symbol) = Some symbol \<and>
                 set (ht_keys (symbols (the_current_scope table'))) =
                   insert (sym_name symbol) (set (ht_keys (symbols (the_current_scope table)))) \<and>
                 (\<forall>k. k \<noteq> sym_name symbol \<longrightarrow>
                    pcc_hashtable_get (symbols (the_current_scope table')) k =
                    pcc_hashtable_get (symbols (the_current_scope table)) k))"
proof -
  let ?tbl = "symbols (the_current_scope table)"
  from assms have cur: "current_scope table < length (all_scopes table)"
    and ok: "\<forall>i < length (all_scopes table). scope_ok (all_scopes table) (i, all_scopes table ! i)"
    by (simp_all add: symtab_inv_iff)
  then have h: "ht_inv ?tbl" "ht_values_nonnull ?tbl"
    by (auto simp: scope_ok_def the_current_scope_def)
  note c = contains_iff_key [OF h, of "sym_name symbol"]
  show ?thesis
  proof (cases "sym_name symbol \<in> set (ht_keys ?tbl)")
    case True
    with c show ?thesis
      by (simp add: symbol_table_add_def symbol_table_add_error_def Let_def)
  next
    case False
    note r = put_result [OF h(1), of "sym_name symbol" "Some symbol"]
    from False c r cur show ?thesis
      by (simp add: symbol_table_add_def case_prod_beta the_current_scope_def)
  qed
qed

text \<open>Concrete symbol tables: a global \<open>x\<close>, and an inner scope entered above it.\<close>

definition demo_pos :: PCCPosition where
  "demo_pos = \<lparr> line = 1, column = 5, filename = ''demo.pcc'' \<rparr>"

definition demo_x :: "unit Symbol" where
  "demo_x = symbol_create ''x'' SYMBOL_VARIABLE None demo_pos"

definition st_global_x :: "unit SymbolTable" where
  "st_global_x = snd (symbol_table_add symbol_table_create demo_x)"

definition st_inner :: "unit SymbolTable" where
  "st_inner = snd (symbol_table_enter_scope st_global_x)"

lemma hash_x: "bucket_index pcc_default_hash 16 ''x'' = 13"
  by (simp add: bucket_index_def pcc_default_hash_def char_to_int_def)

lemmas st_eval =
  symbol_table_create_def symbol_table_add_def symbol_table_enter_scope_def
  symbol_table_exit_scope_def symbol_table_add_error_def scope_create_def
  the_current_scope_def symbol_create_def snprintf512_def

lemma st_global_x_keys:
  "ht_keys (symbols (the_current_scope st_global_x)) = [''x'']"
  by (simp add: st_global_x_def demo_x_def st_eval ht_eval)

lemma st_inner_keys:
  "ht_keys (symbols (the_current_scope st_inner)) = [] \<and> current_scope st_inner = 1 \<and>
   ht_keys (symbols (all_scopes st_inner ! 0)) = [''x'']"
  by (simp add: st_inner_def st_global_x_def demo_x_def st_eval ht_eval)

theorem symbol_table_add_redefinition_witness:
  "symtab_inv st_global_x \<and> symtab_inv st_inner \<and>
   fst (symbol_table_add st_global_x demo_x) = PCC_ERROR_SEMANTIC \<and>
   map error_code (errors (snd (symbol_table_add st_global_x demo_x))) = [SEM_ERROR_REDEFINED_SYMBOL] \<and>
   all_scopes (snd (symbol_table_add st_global_x demo_x)) = all_scopes st_global_x \<and>
   fst (symbol_table_add st_inner demo_x) = PCC_SUCCESS \<and>
   errors (snd (symbol_table_add st_inner demo_x)) = [] \<and>
   symbol_table_lookup_local (snd (symbol_table_add st_inner demo_x)) ''x'' = Some demo_x"
proof -
  have h1: "symtab_inv st_global_x"
    unfolding st_global_x_def by (intro inv_add inv_create)
  have h2: "symtab_inv st_inner"
    unfolding st_inner_def by (intro inv_enter h1)
  have e: "errors st_global_x = []" "errors st_inner = []"
    by (simp_all add: st_inner_def st_global_x_def demo_x_def st_eval ht_eval)
  show ?thesis
    using h1 h2 symbol_table_add_redefinition [OF h1, of demo_x]
      symbol_table_add_redefinition [OF h2, of demo_x] st_global_x_keys st_inner_keys e
    by (simp add: demo_x_def symbol_create_def symbol_table_lookup_local_def case_prod_beta)
qed


theorem symbol_table_scope_chain_witness:
  "reachable st_inner \<and> reachable (symbol_table_create :: unit SymbolTable) \<and>
   current_scope st_inner = 1 \<and> global_scope st_inner = 0 \<and>
   parent (all_scopes st_inner ! 0) = None \<and> parent (the_current_scope st_inner) = Some 0 \<and>
   scope_level (the_current_scope st_inner) = 1 \<and>
   chain_root (all_scopes st_inner) (current_scope st_inner) = Some 0 \<and>
   symbol_table_exit_scope st_inner = (PCC_SUCCESS, st_inner\<lparr> current_scope := 0 \<rparr>) \<and>
   symbol_table_exit_scope (symbol_table_create :: unit SymbolTable) =
     (PCC_ERROR_RUNTIME, symbol_table_create) \<and>
   (case symbol_table_enter_scope st_inner of (err, table') \<Rightarrow>
      err = PCC_SUCCESS \<and> current_scope table' = 2 \<and>
      parent (the_current_scope table') = Some 1 \<and>
      scope_level (the_current_scope table') = 2)"
proof -
  have h0: "reachable (symbol_table_create :: unit SymbolTable)"
    by (rule r_create)
  have h1: "reachable st_inner"
    unfolding st_inner_def st_global_x_def by (intro r_enter r_add r_create)
  have e: "current_scope st_inner = 1" "global_scope st_inner = 0"
    "length (all_scopes st_inner) = 2"
    "parent (the_current_scope st_inner) = Some 0" "scope_level (the_current_scope st_inner) = 1"
    "current_scope (symbol_table_create :: unit SymbolTable) = 0"
    "global_scope (symbol_table_create :: unit SymbolTable) = 0"
    by (simp_all add: st_inner_def st_global_x_def demo_x_def st_eval case_prod_beta)
  show ?thesis
    using h0 h1 symbol_table_scope_chain [OF h1] symbol_table_scope_chain [OF h0] e
    by (simp add: case_prod_beta)
qed

section \<open>Tokens and syntax trees (lexer.h, ast.h)\<close>

text \<open>
  A node is its kind with the payload that \<open>ast.c\<close> attaches to that kind (the constructors
  take the place of the \<open>type\<close> tag and the \<open>data\<close> pointer, so a node always has the
  payload of its kind) and its position, last.  Child pointers and arrays that the code tests
  against \<open>NULL\<close> are options; an array never holds \<open>NULL\<close>, as \<open>pcc_array_push\<close>
  refuses it.  Number literals carry a value of type \<open>'d\<close>, the machine's \<open>double\<close>.
\<close>

datatype TokenType =
    TOKEN_PROMPT | TOKEN_VAR | TOKEN_TEMPLATE | TOKEN_CONSTRAINT | TOKEN_OUTPUT
  | TOKEN_IF | TOKEN_ELSE | TOKEN_FOR | TOKEN_WHILE | TOKEN_IN | TOKEN_AS
  | TOKEN_AND | TOKEN_OR | TOKEN_NOT | TOKEN_RAW | TOKEN_TRUE | TOKEN_FALSE
  | TOKEN_IDENTIFIER | TOKEN_STRING | TOKEN_NUMBER | TOKEN_BOOLEAN
  | TOKEN_EQ | TOKEN_NE | TOKEN_LT | TOKEN_GT | TOKEN_LE | TOKEN_GE
  | TOKEN_IN_OP | TOKEN_NOT_IN
  | TOKEN_ADD | TOKEN_SUB | TOKEN_MUL | TOKEN_DIV | TOKEN_MOD | TOKEN_POW | TOKEN_ASSIGN
  | TOKEN_LBRACE | TOKEN_RBRACE | TOKEN_LPAREN | TOKEN_RPAREN | TOKEN_LBRACKET | TOKEN_RBRACKET
  | TOKEN_COMMA | TOKEN_SEMICOLON | TOKEN_COLON | TOKEN_DOT
  | TOKEN_VARIABLE_REF | TOKEN_TEMPLATE_CALL
  | TOKEN_EOF | TOKEN_ERROR | TOKEN_UNKNOWN

datatype ASTNodeType =
    AST_PROGRAM
  | AST_PROMPT_DEF | AST_VAR_DECL | AST_TEMPLATE_DEF | AST_CONSTRAINT_DEF | AST_OUTPUT_SPEC
  | AST_IDENTIFIER | AST_STRING_LITERAL | AST_NUMBER_LITERAL | AST_BOOLEAN_LITERAL
  | AST_BINARY_EXPR | AST_UNARY_EXPR | AST_VARIABLE_REF | AST_TEMPLATE_CALL | AST_FUNCTION_CALL
  | AST_IF_STMT | AST_FOR_STMT | AST_WHILE_STMT
  | AST_TEXT_ELEMENT | AST_VARIABLE_ELEMENT | AST_TEMPLATE_ELEMENT
  | AST_CONSTRAINT_EXPR
  | AST_OUTPUT_FORMAT
  | AST_STATEMENT_LIST | AST_EXPRESSION_LIST | AST_PARAMETER_LIST | AST_ARGUMENT_LIST
  | AST_CONSTRAINT_LIST | AST_ELEMENT_LIST
  | AST_EMPTY

datatype ListKind =
    STATEMENT_LIST | EXPRESSION_LIST | PARAMETER_LIST | ARGUMENT_LIST | CONSTRAINT_LIST
  | ELEMENT_LIST

datatype 'd ASTNode =
    Program "'d ASTNode list option" PCCPosition
  | PromptDef string "'d ASTNode option" PCCPosition
  | VarDecl string "'d ASTNode option" PCCPosition
  | TemplateDef string "string list option" "'d ASTNode option" PCCPosition
  | ConstraintDef string "'d ASTNode list option" PCCPosition
  | OutputSpec string int PCCPosition
  | Identifier string PCCPosition
  | StringLiteral string PCCPosition
  | NumberLiteral 'd PCCPosition
  | BooleanLiteral int PCCPosition
  | BinaryExpr TokenType "'d ASTNode option" "'d ASTNode option" PCCPosition
  | UnaryExpr TokenType "'d ASTNode option" PCCPosition
  | VariableRef string PCCPosition
  | TemplateCall string "'d ASTNode list option" PCCPosition
  | FunctionCall string "'d ASTNode list option" PCCPosition
  | IfStmt "'d ASTNode option" "'d ASTNode option" "'d ASTNode option" PCCPosition
  | ForStmt string "'d ASTNode option" "'d ASTNode option" PCCPosition
  | WhileStmt "'d ASTNode option" "'d ASTNode option" PCCPosition
  | TextElement string int PCCPosition
  | VariableElement PCCPosition
  | TemplateElement PCCPosition
  | ConstraintExpr string TokenType "'d ASTNode option" PCCPosition
  | OutputFormat PCCPosition
  | ListNode ListKind "'d ASTNode list option" PCCPosition
  | Empty PCCPosition

fun list_node_type :: "ListKind \<Rightarrow> ASTNodeType" where
  "list_node_type STATEMENT_LIST = AST_STATEMENT_LIST"
| "list_node_type EXPRESSION_LIST = AST_EXPRESSION_LIST"
| "list_node_type PARAMETER_LIST = AST_PARAMETER_LIST"
| "list_node_type ARGUMENT_LIST = AST_ARGUMENT_LIST"
| "list_node_type CONSTRAINT_LIST = AST_CONSTRAINT_LIST"
| "list_node_type ELEMENT_LIST = AST_ELEMENT_LIST"

fun node_type :: "'d ASTNode \<Rightarrow> ASTNodeType" where
  "node_type (Program _ _) = AST_PROGRAM"
| "node_type (PromptDef _ _ _) = AST_PROMPT_DEF"
| "node_type (VarDecl _ _ _) = AST_VAR_DECL"
| "node_type (TemplateDef _ _ _ _) = AST_TEMPLATE_DEF"
| "node_type (ConstraintDef _ _ _) = AST_CONSTRAINT_DEF"
| "node_type (OutputSpec _ _ _) = AST_OUTPUT_SPEC"
| "node_type (Identifier _ _) = AST_IDENTIFIER"
| "node_type (StringLiteral _ _) = AST_STRING_LITERAL"
| "node_type (NumberLiteral _ _) = AST_NUMBER_LITERAL"
| "node_type (BooleanLiteral _ _) = AST_BOOLEAN_LITERAL"
| "node_type (BinaryExpr _ _ _ _) = AST_BINARY_EXPR"
| "node_type (UnaryExpr _ _ _) = AST_UNARY_EXPR"
| "node_type (VariableRef _ _) = AST_VARIABLE_REF"
| "node_type (TemplateCall _ _ _) = AST_TEMPLATE_CALL"
| "node_type (FunctionCall _ _ _) = AST_FUNCTION_CALL"
| "node_type (IfStmt _ _ _ _) = AST_IF_STMT"
| "node_type (ForStmt _ _ _ _) = AST_FOR_STMT"
| "node_type (WhileStmt _ _ _) = AST_WHILE_STMT"
| "node_type (TextElement _ _ _) = AST_TEXT_ELEMENT"
| "node_type (VariableElement _) = AST_VARIABLE_ELEMENT"
| "node_type (TemplateElement _) = AST_TEMPLATE_ELEMENT"
| "node_type (ConstraintExpr _ _ _ _) = AST_CONSTRAINT_EXPR"
| "node_type (OutputFormat _) = AST_OUTPUT_FORMAT"
| "node_type (ListNode kind _ _) = list_node_type kind"
| "node_type (Empty _) = AST_EMPTY"

fun node_position :: "'d ASTNode \<Rightarrow> PCCPosition" where
  "node_position (Program _ p) = p"
| "node_position (PromptDef _ _ p) = p"
| "node_position (VarDecl _ _ p) = p"
| "node_position (TemplateDef _ _ _ p) = p"
| "node_position (ConstraintDef _ _ p) = p"
| "node_position (OutputSpec _ _ p) = p"
| "node_position (Identifier _ p) = p"
| "node_position (StringLiteral _ p) = p"
| "node_position (NumberLiteral _ p) = p"
| "node_position (BooleanLiteral _ p) = p"
| "node_position (BinaryExpr _ _ _ p) = p"
| "node_position (UnaryExpr _ _ p) = p"
| "node_position (VariableRef _ p) = p"
| "node_position (TemplateCall _ _ p) = p"
| "node_position (FunctionCall _ _ p) = p"
| "node_position (IfStmt _ _ _ p) = p"
| "node_position (ForStmt _ _ _ p) = p"
| "node_position (WhileStmt _ _ p) = p"
| "node_position (TextElement _ _ p) = p"
| "node_position (VariableElement p) = p"
| "node_position (TemplateElement p) = p"
| "node_position (ConstraintExpr _ _ _ p) = p"
| "node_position (OutputFormat p) = p"
| "node_position (ListNode _ _ p) = p"
| "node_position (Empty p) = p"


section \<open>Semantic analyzer (semantic.c)\<close>

text \<open>
  The analyzer's \<open>errors\<close> field aliases the error list of its symbol table and is not
  kept apart.  \<open>semantic_analyze\<close> has one equation per \<open>case\<close> of its \<open>switch\<close>, holding
  the body of the function that the case calls; the result is \<open>None\<close> when the call does not
  return.
\<close>

record 'd SemanticAnalyzer =
  symbol_table :: "'d ASTNode SymbolTable"
  has_errors :: int

definition add_error ::
  "'d SemanticAnalyzer \<Rightarrow> string \<Rightarrow> PCCPosition \<Rightarrow> int \<Rightarrow> 'd SemanticAnalyzer" where
  "add_error analyzer msg position code =
     analyzer\<lparr> symbol_table := snd (symbol_table_add_error (symbol_table analyzer) msg position code),
               has_errors := 1 \<rparr>"

definition semantic_analyzer_create :: "'d SemanticAnalyzer" where
  "semantic_analyzer_create = \<lparr> symbol_table = symbol_table_create, has_errors = 0 \<rparr>"

definition quoted :: "string \<Rightarrow> string" where
  "quoted s = [CHR 0x27] @ s @ [CHR 0x27]"

text \<open>The calls on the symbol table, on the analyzer's state.\<close>

definition st_add :: "'d SemanticAnalyzer \<Rightarrow> 'd ASTNode Symbol \<Rightarrow> PCCError \<times> 'd SemanticAnalyzer" where
  "st_add analyzer symbol =
     (case symbol_table_add (symbol_table analyzer) symbol of
        (err, table') \<Rightarrow> (err, analyzer\<lparr> symbol_table := table' \<rparr>))"

definition st_enter_scope :: "'d SemanticAnalyzer \<Rightarrow> 'd SemanticAnalyzer" where
  "st_enter_scope analyzer =
     analyzer\<lparr> symbol_table := snd (symbol_table_enter_scope (symbol_table analyzer)) \<rparr>"

definition st_exit_scope :: "'d SemanticAnalyzer \<Rightarrow> 'd SemanticAnalyzer" where
  "st_exit_scope analyzer =
     analyzer\<lparr> symbol_table := snd (symbol_table_exit_scope (symbol_table analyzer)) \<rparr>"

primrec add_parameters ::
  "'d SemanticAnalyzer \<Rightarrow> string list \<Rightarrow> PCCPosition \<Rightarrow> 'd SemanticAnalyzer" where
  "add_parameters analyzer [] position = analyzer"
| "add_parameters analyzer (param_name # rest) position =
     add_parameters
       (snd (st_add analyzer (symbol_create param_name SYMBOL_PARAMETER None position)))
       rest position"

fun semantic_analyze ::
      "'d SemanticAnalyzer \<Rightarrow> 'd ASTNode \<Rightarrow> (PCCError \<times> 'd SemanticAnalyzer) option"
  and analyze_each ::
      "'d SemanticAnalyzer \<Rightarrow> 'd ASTNode list \<Rightarrow> (PCCError \<times> 'd SemanticAnalyzer) option"
  and analyze_all ::
      "'d SemanticAnalyzer \<Rightarrow> 'd ASTNode list \<Rightarrow> 'd SemanticAnalyzer option"
  and analyze_opt ::
      "'d SemanticAnalyzer \<Rightarrow> 'd ASTNode option \<Rightarrow> 'd SemanticAnalyzer option"
where
  \<comment> \<open>\<open>analyze_program\<close>\<close>
  "semantic_analyze analyzer (Program statements position) =
     (case statements of
        None \<Rightarrow> Some (PCC_SUCCESS, analyzer)
      | Some stmts \<Rightarrow> analyze_each analyzer stmts)"
  \<comment> \<open>\<open>analyze_prompt_def\<close>\<close>
| "semantic_analyze analyzer (PromptDef name body position) =
     (case st_add analyzer
             (symbol_create name SYMBOL_PROMPT (Some (PromptDef name body position)) position) of
        (err, analyzer1) \<Rightarrow>
          if err \<noteq> PCC_SUCCESS then Some (err, analyzer1)
          else (case body of
                  None \<Rightarrow> Some (PCC_SUCCESS, analyzer1)
                | Some b \<Rightarrow> semantic_analyze analyzer1 b))"
  \<comment> \<open>\<open>analyze_var_decl\<close>\<close>
| "semantic_analyze analyzer (VarDecl name initializer position) =
     (case st_add analyzer
             (symbol_create name SYMBOL_VARIABLE (Some (VarDecl name initializer position)) position) of
        (err, analyzer1) \<Rightarrow>
          if err \<noteq> PCC_SUCCESS then Some (err, analyzer1)
          else (case initializer of
                  None \<Rightarrow> Some (PCC_SUCCESS, analyzer1)
                | Some i \<Rightarrow> semantic_analyze analyzer1 i))"
  \<comment> \<open>\<open>analyze_template_def\<close>\<close>
| "semantic_analyze analyzer (TemplateDef name parameters body position) =
     (case st_add analyzer
             (symbol_create name SYMBOL_TEMPLATE
                (Some (TemplateDef name parameters body position)) position) of
        (err, analyzer1) \<Rightarrow>
          if err \<noteq> PCC_SUCCESS then Some (err, analyzer1)
          else
            (let analyzer2 = st_enter_scope analyzer1;
                 analyzer3 = (case parameters of
                                None \<Rightarrow> analyzer2
                              | Some ps \<Rightarrow> add_parameters analyzer2 ps position)
             in case body of
                  None \<Rightarrow> Some (err, st_exit_scope analyzer3)
                | Some b \<Rightarrow>
                    (case semantic_analyze analyzer3 b of
                       None \<Rightarrow> None
                     | Some (err', analyzer4) \<Rightarrow> Some (err', st_exit_scope analyzer4))))"
  \<comment> \<open>\<open>analyze_constraint_def\<close>\<close>
| "semantic_analyze analyzer (ConstraintDef name constraints position) =
     (case st_add analyzer
             (symbol_create name SYMBOL_CONSTRAINT
                (Some (ConstraintDef name constraints position)) position) of
        (err, analyzer1) \<Rightarrow>
          if err \<noteq> PCC_SUCCESS then Some (err, analyzer1)
          else (case constraints of
                  None \<Rightarrow> Some (PCC_SUCCESS, analyzer1)
                | Some cs \<Rightarrow> analyze_each analyzer1 cs))"
  \<comment> \<open>\<open>analyze_output_spec\<close>\<close>
| "semantic_analyze analyzer (OutputSpec name format position) =
     (case symbol_table_lookup (symbol_table analyzer) name of
        None \<Rightarrow> None
      | Some None \<Rightarrow>
          Some (PCC_ERROR_SEMANTIC,
                add_error analyzer
                  (snprintf512 (''Undefined prompt '' @ quoted name @ '' in OUTPUT specification''))
                  position SEM_ERROR_UNDEFINED_SYMBOL)
      | Some (Some symbol) \<Rightarrow>
          if sym_type symbol \<noteq> SYMBOL_PROMPT
          then Some (PCC_ERROR_SEMANTIC,
                add_error analyzer
                  (snprintf512 (quoted name @ '' is not a prompt in OUTPUT specification''))
                  position SEM_ERROR_TYPE_MISMATCH)
          else Some (PCC_SUCCESS, analyzer))"
  \<comment> \<open>\<open>analyze_identifier\<close>\<close>
| "semantic_analyze analyzer (Identifier name position) =
     (case symbol_table_lookup (symbol_table analyzer) name of
        None \<Rightarrow> None
      | Some None \<Rightarrow>
          Some (PCC_ERROR_SEMANTIC,
                add_error analyzer (snprintf512 (''Undefined identifier '' @ quoted name))
                  position SEM_ERROR_UNDEFINED_SYMBOL)
      | Some (Some symbol) \<Rightarrow> Some (PCC_SUCCESS, analyzer))"
| "semantic_analyze analyzer (StringLiteral v position) = Some (PCC_SUCCESS, analyzer)"
| "semantic_analyze analyzer (NumberLiteral v position) = Some (PCC_SUCCESS, analyzer)"
| "semantic_analyze analyzer (BooleanLiteral v position) = Some (PCC_SUCCESS, analyzer)"
  \<comment> \<open>\<open>analyze_expression\<close>\<close>
| "semantic_analyze analyzer (BinaryExpr op left right position) =
     (case analyze_opt analyzer left of
        None \<Rightarrow> None
      | Some analyzer1 \<Rightarrow>
          (case analyze_opt analyzer1 right of
             None \<Rightarrow> None
           | Some analyzer2 \<Rightarrow> Some (PCC_SUCCESS, analyzer2)))"
| "semantic_analyze analyzer (UnaryExpr op operand position) =
     (case analyze_opt analyzer operand of
        None \<Rightarrow> None
      | Some analyzer1 \<Rightarrow> Some (PCC_SUCCESS, analyzer1))"
  \<comment> \<open>\<open>analyze_variable_ref\<close>\<close>
| "semantic_analyze analyzer (VariableRef name position) =
     (case symbol_table_lookup (symbol_table analyzer) name of
        None \<Rightarrow> None
      | Some None \<Rightarrow>
          Some (PCC_ERROR_SEMANTIC,
                add_error analyzer (snprintf512 (''Undefined variable '' @ quoted (CHR ''$'' # name)))
                  position SEM_ERROR_UNDEFINED_SYMBOL)
      | Some (Some symbol) \<Rightarrow>
          if sym_type symbol \<noteq> SYMBOL_VARIABLE \<and> sym_type symbol \<noteq> SYMBOL_PARAMETER
          then Some (PCC_ERROR_SEMANTIC,
                add_error analyzer (snprintf512 (quoted (CHR ''$'' # name) @ '' is not a variable''))
                  position SEM_ERROR_TYPE_MISMATCH)
          else (case symbol_table_mark_used (symbol_table analyzer) name of
                  None \<Rightarrow> None
                | Some (err, table') \<Rightarrow>
                    Some (PCC_SUCCESS, analyzer\<lparr> symbol_table := table' \<rparr>)))"
  \<comment> \<open>\<open>analyze_function_call\<close>\<close>
| "semantic_analyze analyzer (TemplateCall name arguments position) =
     (case symbol_table_lookup (symbol_table analyzer) name of
        None \<Rightarrow> None
      | Some None \<Rightarrow>
          Some (PCC_ERROR_SEMANTIC,
                add_error analyzer (snprintf512 (''Undefined template '' @ quoted name))
                  position SEM_ERROR_UNDEFINED_SYMBOL)
      | Some (Some symbol) \<Rightarrow>
          if sym_type symbol \<noteq> SYMBOL_TEMPLATE
          then Some (PCC_ERROR_SEMANTIC,
                add_error analyzer (snprintf512 (quoted name @ '' is not a template''))
                  position SEM_ERROR_TYPE_MISMATCH)
          else (case arguments of
                  None \<Rightarrow> Some (PCC_SUCCESS, analyzer)
                | Some args \<Rightarrow>
                    (case analyze_all analyzer args of
                       None \<Rightarrow> None
                     | Some analyzer1 \<Rightarrow> Some (PCC_SUCCESS, analyzer1))))"
| "semantic_analyze analyzer (FunctionCall name arguments position) =
     (case symbol_table_lookup (symbol_table analyzer) name of
        None \<Rightarrow> None
      | Some None \<Rightarrow>
          Some (PCC_ERROR_SEMANTIC,
                add_error analyzer (snprintf512 (''Undefined template '' @ quoted name))
                  position SEM_ERROR_UNDEFINED_SYMBOL)
      | Some (Some symbol) \<Rightarrow>
          if sym_type symbol \<noteq> SYMBOL_TEMPLATE
          then Some (PCC_ERROR_SEMANTIC,
                add_error analyzer (snprintf512 (quoted name @ '' is not a template''))
                  position SEM_ERROR_TYPE_MISMATCH)
          else (case arguments of
                  None \<Rightarrow> Some (PCC_SUCCESS, analyzer)
                | Some args \<Rightarrow>
                    (case analyze_all analyzer args of
                       None \<Rightarrow> None
                     | Some analyzer1 \<Rightarrow> Some (PCC_SUCCESS, analyzer1))))"
  \<comment> \<open>\<open>analyze_if_stmt\<close>\<close>
| "semantic_analyze analyzer (IfStmt condition then_body else_body position) =
     (case analyze_opt analyzer condition of
        None \<Rightarrow> None
      | Some analyzer1 \<Rightarrow>
          (case analyze_opt analyzer1 then_body of
             None \<Rightarrow> None
           | Some analyzer2 \<Rightarrow>
               (case analyze_opt analyzer2 else_body of
                  None \<Rightarrow> None
                | Some analyzer3 \<Rightarrow> Some (PCC_SUCCESS, analyzer3))))"
  \<comment> \<open>\<open>analyze_for_stmt\<close>\<close>
| "semantic_analyze analyzer (ForStmt variable iterable body position) =
     (let analyzer1 = st_enter_scope analyzer;
          analyzer2 = snd (st_add analyzer1 (symbol_create variable SYMBOL_VARIABLE None position))
      in case analyze_opt analyzer2 iterable of
           None \<Rightarrow> None
         | Some analyzer3 \<Rightarrow>
             (case analyze_opt analyzer3 body of
                None \<Rightarrow> None
              | Some analyzer4 \<Rightarrow> Some (PCC_SUCCESS, st_exit_scope analyzer4)))"
  \<comment> \<open>\<open>analyze_while_stmt\<close>\<close>
| "semantic_analyze analyzer (WhileStmt condition body position) =
     (case analyze_opt analyzer condition of
        None \<Rightarrow> None
      | Some analyzer1 \<Rightarrow>
          (case analyze_opt analyzer1 body of
             None \<Rightarrow> None
           | Some analyzer2 \<Rightarrow> Some (PCC_SUCCESS, analyzer2)))"
| "semantic_analyze analyzer (TextElement text is_raw position) = Some (PCC_SUCCESS, analyzer)"
  \<comment> \<open>\<open>analyze_expression\<close>, default branch: it calls \<open>semantic_analyze\<close> on the same node,
      which dispatches a constraint expression to \<open>analyze_expression\<close> again, without end\<close>
| "semantic_analyze analyzer (ConstraintExpr variable op v position) = None"
  \<comment> \<open>\<open>analyze_element_list\<close>\<close>
| "semantic_analyze analyzer (ListNode kind elements position) =
     (if kind = PARAMETER_LIST then Some (PCC_ERROR_RUNTIME, analyzer)
      else case elements of
             None \<Rightarrow> Some (PCC_SUCCESS, analyzer)
           | Some elems \<Rightarrow> analyze_each analyzer elems)"
| "semantic_analyze analyzer (VariableElement position) = Some (PCC_SUCCESS, analyzer)"
| "semantic_analyze analyzer (TemplateElement position) = Some (PCC_SUCCESS, analyzer)"
| "semantic_analyze analyzer (OutputFormat position) = Some (PCC_SUCCESS, analyzer)"
| "semantic_analyze analyzer (Empty position) = Some (PCC_SUCCESS, analyzer)"
  \<comment> \<open>a loop over an array that returns at the first status other than success\<close>
| "analyze_each analyzer [] = Some (PCC_SUCCESS, analyzer)"
| "analyze_each analyzer (stmt # rest) =
     (case semantic_analyze analyzer stmt of
        None \<Rightarrow> None
      | Some (err, analyzer1) \<Rightarrow>
          if err \<noteq> PCC_SUCCESS then Some (err, analyzer1) else analyze_each analyzer1 rest)"
  \<comment> \<open>a loop over an array that drops every status\<close>
| "analyze_all analyzer [] = Some analyzer"
| "analyze_all analyzer (arg # rest) =
     (case semantic_analyze analyzer arg of
        None \<Rightarrow> None
      | Some (err, analyzer1) \<Rightarrow> analyze_all analyzer1 rest)"
  \<comment> \<open>a call on a child that may be \<open>NULL\<close>, its status dropped\<close>
| "analyze_opt analyzer None = Some analyzer"
| "analyze_opt analyzer (Some child) =
     (case semantic_analyze analyzer child of
        None \<Rightarrow> None
      | Some (err, analyzer1) \<Rightarrow> Some analyzer1)"


subsection \<open>The active scope chain\<close>

text \<open>The scopes from a scope outwards, as far as the parent links lead to older scopes.\<close>

function scope_chain :: "'n Scope list \<Rightarrow> nat \<Rightarrow> nat list" where
  "scope_chain scopes s =
     s # (case parent (scopes ! s) of
            None \<Rightarrow> []
          | Some p \<Rightarrow> if p < s then scope_chain scopes p else [])"
  by pat_completeness auto
termination
  by (relation "measure snd") auto

declare scope_chain.simps [simp del]

definition declared_in_chain :: "'n SymbolTable \<Rightarrow> string \<Rightarrow> bool" where
  "declared_in_chain table name =
     list_ex (\<lambda>s. name \<in> set (ht_keys (symbols (all_scopes table ! s))))
       (scope_chain (all_scopes table) (current_scope table))"

lemma lookup_scope_absent:
  assumes ok: "\<forall>i < length scopes. scope_ok scopes (i, scopes ! i)"
  shows "s < length scopes \<Longrightarrow>
         \<forall>s' \<in> set (scope_chain scopes s). name \<notin> set (ht_keys (symbols (scopes ! s'))) \<Longrightarrow>
         lookup_scope scopes (Some s) name = Some None"
proof (induction s rule: less_induct)
  case (less s)
  from ok less.prems(1) have sk: "scope_ok scopes (s, scopes ! s)" by simp
  then have h: "ht_inv (symbols (scopes ! s))" by (simp add: scope_ok_def)
  have "s \<in> set (scope_chain scopes s)"
    by (subst scope_chain.simps) simp
  with less.prems(2) have "name \<notin> set (ht_keys (symbols (scopes ! s)))" by blast
  then have g: "pcc_hashtable_get (symbols (scopes ! s)) name = None"
    by (rule get_absent [OF h])
  show ?case
  proof (cases "parent (scopes ! s)")
    case None
    with g show ?thesis
      by (subst lookup_scope.simps) (simp add: lookup_scope.simps [of scopes None])
  next
    case (Some p)
    with sk have ps: "p < s"
      by (auto simp: scope_ok_def split: if_splits)
    then have "set (scope_chain scopes p) \<subseteq> set (scope_chain scopes s)"
      using Some by (subst (2) scope_chain.simps) auto
    with less.prems ps have "lookup_scope scopes (Some p) name = Some None"
      by (intro less.IH) auto
    with g Some show ?thesis
      by (subst lookup_scope.simps) simp
  qed
qed

lemma symbol_table_lookup_absent:
  assumes "symtab_inv table" and "\<not> declared_in_chain table name"
  shows "symbol_table_lookup table name = Some None"
proof -
  from assms(1) have cur: "current_scope table < length (all_scopes table)"
    and ok: "\<forall>i < length (all_scopes table). scope_ok (all_scopes table) (i, all_scopes table ! i)"
    by (simp_all add: symtab_inv_iff)
  from assms(2) have "\<forall>s' \<in> set (scope_chain (all_scopes table) (current_scope table)).
      name \<notin> set (ht_keys (symbols (all_scopes table ! s')))"
    by (simp add: declared_in_chain_def list_ex_iff)
  from lookup_scope_absent [OF ok cur this] show ?thesis
    by (simp add: symbol_table_lookup_def)
qed

text \<open>
  C5.  When a variable reference \<open>$name\<close> or a call \<open>@name(...)\<close> is analyzed in a
  well-formed symbol table in which no scope of the active chain (the current scope and its
  ancestors) declares the name, \<open>semantic_analyze\<close> returns \<open>PCC_ERROR_SEMANTIC\<close> and
  its only effect is one error appended to the error list, with the code
  \<open>SEM_ERROR_UNDEFINED_SYMBOL\<close> and the position of the referencing node itself (and the
  flag \<open>has_errors\<close> set).
\<close>

theorem undefined_reference_one_error:
  assumes "symtab_inv (symbol_table analyzer)"
    and "\<not> declared_in_chain (symbol_table analyzer) name"
    and "node = VariableRef name position \<or> node = TemplateCall name arguments position \<or>
         node = FunctionCall name arguments position"
  shows "\<exists>msg. semantic_analyze analyzer node =
           Some (PCC_ERROR_SEMANTIC,
                 analyzer\<lparr> symbol_table := (symbol_table analyzer)
                             \<lparr> errors := errors (symbol_table analyzer) @
                                 [\<lparr> message = msg, err_position = node_position node,
                                    error_code = SEM_ERROR_UNDEFINED_SYMBOL \<rparr>] \<rparr>,
                           has_errors := 1 \<rparr>)"
  using assms(3) symbol_table_lookup_absent [OF assms(1,2)]
  by (auto simp: add_error_def symbol_table_add_error_def)


text \<open>A fresh analyzer, for concrete runs.\<close>

definition an_demo :: "int SemanticAnalyzer" where
  "an_demo = semantic_analyzer_create"

lemma an_demo_inv: "symtab_inv (symbol_table an_demo)"
  by (simp add: an_demo_def semantic_analyzer_create_def inv_create)

lemma an_demo_undeclared: "\<not> declared_in_chain (symbol_table an_demo) name"
  by (simp add: an_demo_def semantic_analyzer_create_def declared_in_chain_def
      symbol_table_create_def scope_chain.simps scope_create_def ht_keys_def ht_entries_def
      pcc_hashtable_create_def concat_replicate_Nil)

theorem undefined_reference_one_error_witness:
  "symtab_inv (symbol_table an_demo) \<and> \<not> declared_in_chain (symbol_table an_demo) ''x'' \<and>
   (case semantic_analyze an_demo (VariableRef ''x'' demo_pos) of
      None \<Rightarrow> False
    | Some (err, analyzer') \<Rightarrow>
        err = PCC_ERROR_SEMANTIC \<and>
        map err_position (errors (symbol_table analyzer')) = [demo_pos] \<and>
        map error_code (errors (symbol_table analyzer')) = [SEM_ERROR_UNDEFINED_SYMBOL]) \<and>
   (case semantic_analyze an_demo (TemplateCall ''greet'' (Some []) demo_pos) of
      None \<Rightarrow> False
    | Some (err, analyzer') \<Rightarrow>
        err = PCC_ERROR_SEMANTIC \<and>
        map err_position (errors (symbol_table analyzer')) = [demo_pos] \<and>
        map error_code (errors (symbol_table analyzer')) = [SEM_ERROR_UNDEFINED_SYMBOL])"
proof -
  have e: "errors (symbol_table an_demo) = []"
    by (simp add: an_demo_def semantic_analyzer_create_def symbol_table_create_def)
  note t = undefined_reference_one_error [OF an_demo_inv an_demo_undeclared]
  from t [of "VariableRef ''x'' demo_pos" "''x''" demo_pos None]
  obtain m1 where m1: "semantic_analyze an_demo (VariableRef ''x'' demo_pos) =
      Some (PCC_ERROR_SEMANTIC,
            an_demo\<lparr> symbol_table := (symbol_table an_demo)
                        \<lparr> errors := errors (symbol_table an_demo) @
                            [\<lparr> message = m1, err_position = demo_pos,
                               error_code = SEM_ERROR_UNDEFINED_SYMBOL \<rparr>] \<rparr>,
                      has_errors := 1 \<rparr>)"
    by auto
  from t [of "TemplateCall ''greet'' (Some []) demo_pos" "''greet''" demo_pos "Some []"]
  obtain m2 where m2: "semantic_analyze an_demo (TemplateCall ''greet'' (Some []) demo_pos) =
      Some (PCC_ERROR_SEMANTIC,
            an_demo\<lparr> symbol_table := (symbol_table an_demo)
                        \<lparr> errors := errors (symbol_table an_demo) @
                            [\<lparr> message = m2, err_position = demo_pos,
                               error_code = SEM_ERROR_UNDEFINED_SYMBOL \<rparr>] \<rparr>,
                      has_errors := 1 \<rparr>)"
    by auto
  show ?thesis
    using an_demo_inv an_demo_undeclared [of "''x''"] e
    by (simp only: m1 m2) simp
qed

text \<open>
  C6.  The claim that the status is a failure whenever an error was recorded fails on the
  code: \<open>analyze_if_stmt\<close> drops the status of the calls on its parts.  Analyzing
  \<open>IF $x { }\<close> with \<open>x\<close> undeclared records the undefined-symbol error, sets
  \<open>has_errors\<close>, and returns \<open>PCC_SUCCESS\<close>.
\<close>

theorem semantic_analyze_if_stmt_reports_success:
  "semantic_analyze an_demo (IfStmt (Some (VariableRef ''x'' demo_pos)) None None demo_pos) =
     Some (PCC_SUCCESS,
           an_demo\<lparr> symbol_table := (symbol_table an_demo)
                       \<lparr> errors := [\<lparr> message = ''Undefined variable '' @ quoted ''$x'',
                                     err_position = demo_pos,
                                     error_code = SEM_ERROR_UNDEFINED_SYMBOL \<rparr>] \<rparr>,
                     has_errors := 1 \<rparr>)"
proof -
  have e: "errors (symbol_table an_demo) = []"
    by (simp add: an_demo_def semantic_analyzer_create_def symbol_table_create_def)
  have "symbol_table_lookup (symbol_table an_demo) ''x'' = Some None"
    by (rule symbol_table_lookup_absent [OF an_demo_inv an_demo_undeclared])
  with e show ?thesis
    by (simp add: add_error_def symbol_table_add_error_def snprintf512_def quoted_def)
qed

section \<open>Optimizer (optimizer.h, optimizer.c)\<close>

text \<open>
  \<open>enabled_passes\<close> is the \<open>int\<close> bitmask, a 32-bit word; \<open>1 << pass\<close> is
  \<open>pass_bit\<close>.  The arithmetic of \<open>double\<close> (\<open>+ - * /\<close>, \<open>fmod\<close>, \<open>pow\<close>, negation,
  the test \<open>== 0.0\<close>) is a parameter of the optimizer, \<open>'d DoubleOps\<close>: the theorems hold
  for every such arithmetic, that of the machine included.  The counter is an \<open>int\<close> that
  counts rewrites of one tree and is taken not to overflow.
\<close>

datatype OptimizationPass =
    OPT_CONSTANT_FOLDING
  | OPT_DEAD_CODE_ELIMINATION
  | OPT_UNUSED_REMOVAL
  | OPT_INLINE_TEMPLATES
  | OPT_ALL

fun pass_number :: "OptimizationPass \<Rightarrow> nat" where
  "pass_number OPT_CONSTANT_FOLDING = 0"
| "pass_number OPT_DEAD_CODE_ELIMINATION = 1"
| "pass_number OPT_UNUSED_REMOVAL = 2"
| "pass_number OPT_INLINE_TEMPLATES = 3"
| "pass_number OPT_ALL = 4"

definition pass_bit :: "OptimizationPass \<Rightarrow> 32 word" where
  "pass_bit pass = push_bit (pass_number pass) 1"

record Optimizer =
  enabled_passes :: "32 word"
  optimizations_applied :: int

record 'd DoubleOps =
  dbl_zero :: 'd
  dbl_is_zero :: "'d \<Rightarrow> bool"
  dbl_add :: "'d \<Rightarrow> 'd \<Rightarrow> 'd"
  dbl_sub :: "'d \<Rightarrow> 'd \<Rightarrow> 'd"
  dbl_mul :: "'d \<Rightarrow> 'd \<Rightarrow> 'd"
  dbl_div :: "'d \<Rightarrow> 'd \<Rightarrow> 'd"
  dbl_fmod :: "'d \<Rightarrow> 'd \<Rightarrow> 'd"
  dbl_pow :: "'d \<Rightarrow> 'd \<Rightarrow> 'd"
  dbl_neg :: "'d \<Rightarrow> 'd"

definition optimizer_create :: "32 word \<Rightarrow> Optimizer" where
  "optimizer_create passes = \<lparr> enabled_passes = passes, optimizations_applied = 0 \<rparr>"

definition optimizer_enable_pass :: "Optimizer \<Rightarrow> OptimizationPass \<Rightarrow> Optimizer" where
  "optimizer_enable_pass optimizer pass =
     optimizer\<lparr> enabled_passes := enabled_passes optimizer OR pass_bit pass \<rparr>"

definition optimizer_disable_pass :: "Optimizer \<Rightarrow> OptimizationPass \<Rightarrow> Optimizer" where
  "optimizer_disable_pass optimizer pass =
     optimizer\<lparr> enabled_passes := enabled_passes optimizer AND NOT (pass_bit pass) \<rparr>"

definition optimizer_is_pass_enabled :: "Optimizer \<Rightarrow> OptimizationPass \<Rightarrow> bool" where
  "optimizer_is_pass_enabled optimizer pass \<longleftrightarrow> enabled_passes optimizer AND pass_bit pass \<noteq> 0"

text \<open>\<open>optimizer->optimizations_applied++\<close>\<close>

definition applied :: "Optimizer \<Rightarrow> Optimizer" where
  "applied optimizer = optimizer\<lparr> optimizations_applied := optimizations_applied optimizer + 1 \<rparr>"

fun is_constant :: "'d ASTNode option \<Rightarrow> bool" where
  "is_constant None = False"
| "is_constant (Some node) =
     (node_type node = AST_NUMBER_LITERAL \<or> node_type node = AST_BOOLEAN_LITERAL \<or>
      node_type node = AST_STRING_LITERAL)"

fun get_numeric_value :: "'d DoubleOps \<Rightarrow> 'd ASTNode option \<Rightarrow> 'd" where
  "get_numeric_value ops (Some (NumberLiteral v position)) = v"
| "get_numeric_value ops node = dbl_zero ops"

fun get_boolean_value :: "'d ASTNode option \<Rightarrow> int" where
  "get_boolean_value (Some (BooleanLiteral v position)) = v"
| "get_boolean_value node = 0"

definition is_type :: "'d ASTNode option \<Rightarrow> ASTNodeType \<Rightarrow> bool" where
  "is_type node t = (case node of None \<Rightarrow> False | Some n \<Rightarrow> node_type n = t)"

text \<open>The \<open>switch\<close> of \<open>constant_folding_binary\<close>: the folded value, if the node folds.\<close>

definition fold_binary :: "'d DoubleOps \<Rightarrow> TokenType \<Rightarrow> 'd \<Rightarrow> 'd \<Rightarrow> 'd option" where
  "fold_binary ops op left_val right_val =
     (if op = TOKEN_ADD then Some (dbl_add ops left_val right_val)
      else if op = TOKEN_SUB then Some (dbl_sub ops left_val right_val)
      else if op = TOKEN_MUL then Some (dbl_mul ops left_val right_val)
      else if op = TOKEN_DIV then
        (if dbl_is_zero ops right_val then None else Some (dbl_div ops left_val right_val))
      else if op = TOKEN_MOD then
        (if dbl_is_zero ops right_val then None else Some (dbl_fmod ops left_val right_val))
      else if op = TOKEN_POW then Some (dbl_pow ops left_val right_val)
      else None)"

text \<open>The two tests of \<open>optimizer_optimize\<close>: the bit of the pass, or the bit of \<open>OPT_ALL\<close>.\<close>

definition pass_enabled :: "Optimizer \<Rightarrow> OptimizationPass \<Rightarrow> bool" where
  "pass_enabled optimizer pass \<longleftrightarrow>
     enabled_passes optimizer AND pass_bit pass \<noteq> 0 \<or>
     enabled_passes optimizer AND pass_bit OPT_ALL \<noteq> 0"

text \<open>
  \<open>optimizer_optimize\<close>, \<open>optimize_node\<close> with the bodies of the functions it dispatches
  to (\<open>optimize_program\<close>, \<open>constant_folding_binary\<close>, \<open>constant_folding_unary\<close>,
  \<open>dead_code_elimination_if\<close>, \<open>optimize_list\<close>), and the loop over an array.  The
  result is \<open>None\<close> where the C code dereferences \<open>NULL\<close>: \<open>dead_code_elimination_if\<close>
  reads the type of the optimized condition unguarded.  A node rewritten in place is the
  returned node.  In the loop over an array, \<open>pcc_array_set\<close> refuses \<open>NULL\<close>, so the slot
  of an element that was optimized away (an \<open>IF false\<close> without \<open>else\<close>) keeps the pointer to
  the node just freed.  No list of nodes stands for such an array, and every later read of
  the slot (the second traversal is one) is a use after free: the result is \<open>None\<close> there
  too.
\<close>

definition msize :: "'d ASTNode option \<Rightarrow> nat" where
  "msize node = size_option size node"

function optimizer_optimize ::
    "'d DoubleOps \<Rightarrow> Optimizer \<Rightarrow> 'd ASTNode option \<Rightarrow> (Optimizer \<times> 'd ASTNode option) option"
  and optimize_node ::
    "'d DoubleOps \<Rightarrow> Optimizer \<Rightarrow> 'd ASTNode option \<Rightarrow> (Optimizer \<times> 'd ASTNode option) option"
  and optimize_elems ::
    "'d DoubleOps \<Rightarrow> Optimizer \<Rightarrow> 'd ASTNode list \<Rightarrow> (Optimizer \<times> 'd ASTNode list) option"
where
  "optimizer_optimize ops optimizer node =
     (if node = None then Some (optimizer, node)
      else
        (case (if pass_enabled optimizer OPT_CONSTANT_FOLDING
               then optimize_node ops optimizer node else Some (optimizer, node)) of
           None \<Rightarrow> None
         | Some (optimizer1, node1) \<Rightarrow>
             if pass_enabled optimizer1 OPT_DEAD_CODE_ELIMINATION
             then optimize_node ops optimizer1 node1 else Some (optimizer1, node1)))"
| "optimize_node ops optimizer None = Some (optimizer, None)"
| "optimize_node ops optimizer (Some node) =
     (case node of
        Program statements position \<Rightarrow>
          (case statements of
             None \<Rightarrow> Some (optimizer, Some node)
           | Some stmts \<Rightarrow>
               (case optimize_elems ops optimizer stmts of
                  None \<Rightarrow> None
                | Some (optimizer1, stmts') \<Rightarrow>
                    Some (optimizer1, Some (Program (Some stmts') position))))
      | BinaryExpr op left right position \<Rightarrow>
          (case optimizer_optimize ops optimizer left of
             None \<Rightarrow> None
           | Some (optimizer1, left') \<Rightarrow>
               (case optimizer_optimize ops optimizer1 right of
                  None \<Rightarrow> None
                | Some (optimizer2, right') \<Rightarrow>
                    if \<not> is_constant left' \<or> \<not> is_constant right'
                    then Some (optimizer2, Some (BinaryExpr op left' right' position))
                    else if \<not> is_type left' AST_NUMBER_LITERAL \<or> \<not> is_type right' AST_NUMBER_LITERAL
                    then Some (optimizer2, Some (BinaryExpr op left' right' position))
                    else
                      (case fold_binary ops op (get_numeric_value ops left')
                              (get_numeric_value ops right') of
                         None \<Rightarrow> Some (optimizer2, Some (BinaryExpr op left' right' position))
                       | Some result \<Rightarrow>
                           Some (applied optimizer2, Some (NumberLiteral result position)))))
      | UnaryExpr op operand position \<Rightarrow>
          (case optimizer_optimize ops optimizer operand of
             None \<Rightarrow> None
           | Some (optimizer1, operand') \<Rightarrow>
               if \<not> is_constant operand'
               then Some (optimizer1, Some (UnaryExpr op operand' position))
               else if op = TOKEN_SUB \<and> is_type operand' AST_NUMBER_LITERAL
               then Some (applied optimizer1,
                          Some (NumberLiteral (dbl_neg ops (get_numeric_value ops operand')) position))
               else if op = TOKEN_NOT \<and> is_type operand' AST_BOOLEAN_LITERAL
               then Some (applied optimizer1,
                          Some (BooleanLiteral (if get_boolean_value operand' = 0 then 1 else 0) position))
               else Some (optimizer1, Some (UnaryExpr op operand' position)))
      | IfStmt condition then_body else_body position \<Rightarrow>
          (case optimizer_optimize ops optimizer condition of
             None \<Rightarrow> None
           | Some (optimizer1, condition') \<Rightarrow>
               if condition' = None then None
               else if is_type condition' AST_BOOLEAN_LITERAL \<and> get_boolean_value condition' \<noteq> 0
                       \<and> then_body \<noteq> None
               then Some (applied optimizer1, then_body)
               else if is_type condition' AST_BOOLEAN_LITERAL \<and> get_boolean_value condition' = 0
               then Some (applied optimizer1, else_body)
               else
                 (case optimizer_optimize ops optimizer1 then_body of
                    None \<Rightarrow> None
                  | Some (optimizer2, then_body') \<Rightarrow>
                      (case optimizer_optimize ops optimizer2 else_body of
                         None \<Rightarrow> None
                       | Some (optimizer3, else_body') \<Rightarrow>
                           Some (optimizer3,
                                 Some (IfStmt condition' then_body' else_body' position)))))
      | ListNode kind elements position \<Rightarrow>
          (if kind = PARAMETER_LIST then Some (optimizer, Some node)
           else case elements of
                  None \<Rightarrow> Some (optimizer, Some node)
                | Some elems \<Rightarrow>
                    (case optimize_elems ops optimizer elems of
                       None \<Rightarrow> None
                     | Some (optimizer1, elems') \<Rightarrow>
                         Some (optimizer1, Some (ListNode kind (Some elems') position))))
      | _ \<Rightarrow> Some (optimizer, Some node))"
| "optimize_elems ops optimizer [] = Some (optimizer, [])"
| "optimize_elems ops optimizer (elem # rest) =
     (case optimizer_optimize ops optimizer (Some elem) of
        None \<Rightarrow> None
      | Some (optimizer1, optimized) \<Rightarrow>
          (case optimized of
             None \<Rightarrow> None
           | Some elem' \<Rightarrow>
               (case optimize_elems ops optimizer1 rest of
                  None \<Rightarrow> None
                | Some (optimizer2, rest') \<Rightarrow> Some (optimizer2, elem' # rest'))))"
  by pat_completeness auto





lemma opt_size:
  fixes ops ops2 ops3 :: "'d DoubleOps"
  shows "optimizer_optimize_optimize_node_optimize_elems_dom (Inl (ops, opt, n)) \<Longrightarrow>
     (\<forall>opt' n'. optimizer_optimize ops opt n = Some (opt', n') \<longrightarrow> msize n' \<le> msize n)"
  and "optimizer_optimize_optimize_node_optimize_elems_dom (Inr (Inl (ops2, opt2, n2))) \<Longrightarrow>
     (\<forall>opt' n'. optimize_node ops2 opt2 n2 = Some (opt', n') \<longrightarrow> msize n' \<le> msize n2)"
  and "optimizer_optimize_optimize_node_optimize_elems_dom (Inr (Inr (ops3, opt3, xs))) \<Longrightarrow>
     (\<forall>opt' xs'. optimize_elems ops3 opt3 xs = Some (opt', xs') \<longrightarrow>
        size_list size xs' \<le> size_list size xs)"
proof (induct ops opt n and ops2 opt2 n2 and ops3 opt3 xs rule: optimizer_optimize_optimize_node_optimize_elems.pinduct)
  case (1 ops optimizer node)
  show ?case
  proof (intro allI impI)
    fix opt' n'
    assume r: "optimizer_optimize ops optimizer node = Some (opt', n')"
    show "msize n' \<le> msize node"
    proof (cases "node = None")
      case True
      with r 1(1) show ?thesis
        by (simp add: optimizer_optimize.psimps)
    next
      case False
      define first where "first = (if pass_enabled optimizer OPT_CONSTANT_FOLDING
            then optimize_node ops optimizer node else Some (optimizer, node))"
      from r False 1(1) obtain o1 n1 where f: "first = Some (o1, n1)"
        and s: "(if pass_enabled o1 OPT_DEAD_CODE_ELIMINATION
                 then optimize_node ops o1 n1 else Some (o1, n1)) = Some (opt', n')"
        by (auto simp: optimizer_optimize.psimps first_def split: option.splits)
      have a: "msize n1 \<le> msize node"
        using f 1(2) False by (auto simp: first_def split: if_splits)
      have b: "msize n' \<le> msize n1"
        using s 1(3) [OF False f [unfolded first_def], of o1 n1]
        by (auto split: if_splits)
      from a b show ?thesis by simp
    qed
  qed
next
  case (2 ops optimizer)
  then show ?case
    by (simp add: optimize_node.psimps)
next
  case (3 ops optimizer node)
  show ?case
  proof (intro allI impI)
    fix opt' n'
    assume r0: "optimize_node ops optimizer (Some node) = Some (opt', n')"
    note r = r0 [unfolded optimize_node.psimps(2) [OF 3(1)]]
    show "msize n' \<le> msize (Some node)"
    proof (cases node)
      case (Program statements position)
      show ?thesis
      proof (cases statements)
        case None
        with r Program show ?thesis by simp
      next
        case (Some stmts)
        with r Program obtain stmts' where
          e: "optimize_elems ops optimizer stmts = Some (opt', stmts')"
          and n': "n' = Some (Program (Some stmts') position)"
          by (auto split: option.splits)
        from 3(2) [OF Program Some, rule_format, OF e] n' Program Some
        show ?thesis by (simp add: msize_def)
      qed
    next
      case (BinaryExpr op left right position)
      from r BinaryExpr obtain o1 l' o2 r' where
        l: "optimizer_optimize ops optimizer left = Some (o1, l')"
        and rr: "optimizer_optimize ops o1 right = Some (o2, r')"
        and n': "n' = Some (BinaryExpr op l' r' position) \<or> (\<exists>v. n' = Some (NumberLiteral v position))"
        by (auto split: option.splits if_splits)
      have "msize l' \<le> msize left"
        using 3(3) [OF BinaryExpr, rule_format, OF l] .
      moreover have "msize r' \<le> msize right"
        using 3(4) [OF BinaryExpr l refl, rule_format, OF rr] .
      ultimately show ?thesis
        using n' BinaryExpr by (auto simp: msize_def)
    next
      case (UnaryExpr op operand position)
      from r UnaryExpr obtain o1 x' where
        l: "optimizer_optimize ops optimizer operand = Some (o1, x')"
        and n': "n' = Some (UnaryExpr op x' position) \<or> (\<exists>v. n' = Some (NumberLiteral v position))
                 \<or> (\<exists>v. n' = Some (BooleanLiteral v position))"
        by (auto split: option.splits if_splits)
      have "msize x' \<le> msize operand"
        using 3(5) [OF UnaryExpr, rule_format, OF l] .
      then show ?thesis
        using n' UnaryExpr by (auto simp: msize_def)
    next
      case (IfStmt condition then_body else_body position)
      from r IfStmt obtain o1 c' where
        c: "optimizer_optimize ops optimizer condition = Some (o1, c')" and cn: "c' \<noteq> None"
        by (auto split: option.splits if_splits)
      have cs: "msize c' \<le> msize condition"
        using 3(6) [OF IfStmt, rule_format, OF c] .
      show ?thesis
      proof (cases "is_type c' AST_BOOLEAN_LITERAL \<and> get_boolean_value c' \<noteq> 0 \<and> then_body \<noteq> None")
        case True
        with r IfStmt c cn have "n' = then_body" by simp
        with IfStmt show ?thesis by (simp add: msize_def)
      next
        case n1: False
        show ?thesis
        proof (cases "is_type c' AST_BOOLEAN_LITERAL \<and> get_boolean_value c' = 0")
          case True
          with r IfStmt c cn n1 have "n' = else_body" by auto
          with IfStmt show ?thesis by (simp add: msize_def)
        next
          case n2: False
          from r IfStmt c cn n1 n2 obtain o2 t' e' where
            t: "optimizer_optimize ops o1 then_body = Some (o2, t')"
            and e: "optimizer_optimize ops o2 else_body = Some (opt', e')"
            and n': "n' = Some (IfStmt c' t' e' position)"
            by (auto split: option.splits)
          have "msize t' \<le> msize then_body"
            using 3(7) [OF IfStmt c refl cn n1 n2, rule_format, OF t] .
          moreover have "msize e' \<le> msize else_body"
            using 3(8) [OF IfStmt c refl cn n1 n2 t refl, rule_format, OF e] .
          ultimately show ?thesis
            using cs n' IfStmt by (simp add: msize_def)
        qed
      qed
    next
      case (ListNode kind elements position)
      show ?thesis
      proof (cases "kind = PARAMETER_LIST \<or> elements = None")
        case True
        with r ListNode show ?thesis by (auto split: if_splits)
      next
        case False
        then obtain elems where el: "elements = Some elems" and k: "kind \<noteq> PARAMETER_LIST"
          by auto
        with r ListNode obtain elems' where
          e: "optimize_elems ops optimizer elems = Some (opt', elems')"
          and n': "n' = Some (ListNode kind (Some elems') position)"
          by (auto split: option.splits)
        from 3(9) [OF ListNode k el, rule_format, OF e] n' ListNode el
        show ?thesis by (simp add: msize_def)
      qed
    qed (use r in \<open>simp_all add: msize_def\<close>)
  qed
next
  case (4 ops optimizer)
  then show ?case
    by (simp add: optimize_elems.psimps)
next
  case (5 ops optimizer elem rest)
  show ?case
  proof (intro allI impI)
    fix opt' xs'
    assume r0: "optimize_elems ops optimizer (elem # rest) = Some (opt', xs')"
    note r = r0 [unfolded optimize_elems.psimps(2) [OF 5(1)]]
    from r obtain o1 x' rest' where
      x: "optimizer_optimize ops optimizer (Some elem) = Some (o1, Some x')"
      and rs: "optimize_elems ops o1 rest = Some (opt', rest')"
      and xs': "xs' = x' # rest'"
      by (auto split: option.splits)
    have "msize (Some x') \<le> msize (Some elem)"
      using 5(2) [rule_format, OF x] .
    moreover have "size_list size rest' \<le> size_list size rest"
      using 5(3) [OF x refl refl, rule_format, OF rs] .
    ultimately show "size_list size xs' \<le> size_list size (elem # rest)"
      using xs' by (auto simp: msize_def)
  qed
qed


termination optimizer_optimize
proof (relation "measure (\<lambda>x. case x of
            Inl (ops, opt, n) \<Rightarrow> 3 * msize n + 2
          | Inr (Inl (ops, opt, n)) \<Rightarrow> 3 * msize n + 1
          | Inr (Inr (ops, opt, xs)) \<Rightarrow> 3 * size_list size xs + 3)", goal_cases)
  case 1
  show ?case by simp
next
  case (2 ops optimizer node)
  show ?case by simp
next
  case (3 ops optimizer node x2 x y)
  have "msize y \<le> msize node"
  proof (cases "pass_enabled optimizer OPT_CONSTANT_FOLDING")
    case True
    with 3 have "optimize_node ops optimizer node = Some (x, y)" by simp
    with opt_size(2) [OF 3(5) [OF True]] show ?thesis by blast
  next
    case False
    with 3 show ?thesis by auto
  qed
  then show ?case by simp
qed (simp_all add: msize_def)


declare optimizer_optimize.simps [simp del] optimize_node.simps [simp del]
  optimize_elems.simps [simp del]

lemma applied_pass [simp]: "pass_enabled (applied optimizer) pass = pass_enabled optimizer pass"
  by (simp add: applied_def pass_enabled_def)

lemma optimize_node_literal:
  "optimize_node ops optimizer (Some (NumberLiteral v p)) = Some (optimizer, Some (NumberLiteral v p))"
  "optimize_node ops optimizer (Some (BooleanLiteral b p)) = Some (optimizer, Some (BooleanLiteral b p))"
  "optimize_node ops optimizer (Some (StringLiteral s p)) = Some (optimizer, Some (StringLiteral s p))"
  by (simp_all add: optimize_node.simps)

lemma optimizer_optimize_literal:
  "optimizer_optimize ops optimizer (Some (NumberLiteral v p)) = Some (optimizer, Some (NumberLiteral v p))"
  "optimizer_optimize ops optimizer (Some (BooleanLiteral b p)) = Some (optimizer, Some (BooleanLiteral b p))"
  "optimizer_optimize ops optimizer (Some (StringLiteral s p)) = Some (optimizer, Some (StringLiteral s p))"
  by (simp_all add: optimizer_optimize.simps optimize_node_literal)

lemma optimizer_optimize_passes:
  "optimizer_optimize ops optimizer (Some node) =
     (if pass_enabled optimizer OPT_CONSTANT_FOLDING
      then (case optimize_node ops optimizer (Some node) of
              None \<Rightarrow> None
            | Some (optimizer1, node1) \<Rightarrow>
                if pass_enabled optimizer1 OPT_DEAD_CODE_ELIMINATION
                then optimize_node ops optimizer1 node1 else Some (optimizer1, node1))
      else if pass_enabled optimizer OPT_DEAD_CODE_ELIMINATION
      then optimize_node ops optimizer (Some node)
      else Some (optimizer, Some node))"
  by (simp add: optimizer_optimize.simps)

text \<open>One traversal of a binary expression over two number literals.\<close>

lemma optimize_node_binary_literals:
  "optimize_node ops optimizer
     (Some (BinaryExpr op (Some (NumberLiteral a pa)) (Some (NumberLiteral b pb)) pos)) =
   (case fold_binary ops op a b of
      None \<Rightarrow> Some (optimizer,
                 Some (BinaryExpr op (Some (NumberLiteral a pa)) (Some (NumberLiteral b pb)) pos))
    | Some result \<Rightarrow> Some (applied optimizer, Some (NumberLiteral result pos)))"
  by (simp add: optimize_node.simps optimizer_optimize_literal is_type_def)

lemma optimizer_optimize_binary_literals:
  assumes "pass_enabled optimizer OPT_CONSTANT_FOLDING \<or>
           pass_enabled optimizer OPT_DEAD_CODE_ELIMINATION"
  shows "optimizer_optimize ops optimizer
     (Some (BinaryExpr op (Some (NumberLiteral a pa)) (Some (NumberLiteral b pb)) pos)) =
   (case fold_binary ops op a b of
      None \<Rightarrow> Some (optimizer,
                 Some (BinaryExpr op (Some (NumberLiteral a pa)) (Some (NumberLiteral b pb)) pos))
    | Some result \<Rightarrow> Some (applied optimizer, Some (NumberLiteral result pos)))"
  using assms
  by (auto simp: optimizer_optimize_passes optimize_node_binary_literals optimize_node_literal
      split: option.splits)

text \<open>
  C1.  With a pass enabled, optimizing a binary expression over two number literals \<open>a\<close>
  and \<open>b\<close> yields, for each of the operators \<open>+\<close>, \<open>-\<close>, \<open>*\<close> and \<open>^\<close>, the single
  number literal whose value is the machine's \<open>a op b\<close> (at the position of the
  expression, the counter one higher); for \<open>/\<close> and \<open>%\<close> with \<open>b == 0.0\<close> the result is
  the binary expression itself with both literal operands, and the counter is unchanged.
\<close>

theorem constant_folding_binary_number_literals:
  assumes "pass_enabled optimizer OPT_CONSTANT_FOLDING \<or>
           pass_enabled optimizer OPT_DEAD_CODE_ELIMINATION"
  shows "optimizer_optimize ops optimizer
           (Some (BinaryExpr TOKEN_ADD (Some (NumberLiteral a pa)) (Some (NumberLiteral b pb)) pos)) =
         Some (applied optimizer, Some (NumberLiteral (dbl_add ops a b) pos)) \<and>
         optimizer_optimize ops optimizer
           (Some (BinaryExpr TOKEN_SUB (Some (NumberLiteral a pa)) (Some (NumberLiteral b pb)) pos)) =
         Some (applied optimizer, Some (NumberLiteral (dbl_sub ops a b) pos)) \<and>
         optimizer_optimize ops optimizer
           (Some (BinaryExpr TOKEN_MUL (Some (NumberLiteral a pa)) (Some (NumberLiteral b pb)) pos)) =
         Some (applied optimizer, Some (NumberLiteral (dbl_mul ops a b) pos)) \<and>
         optimizer_optimize ops optimizer
           (Some (BinaryExpr TOKEN_POW (Some (NumberLiteral a pa)) (Some (NumberLiteral b pb)) pos)) =
         Some (applied optimizer, Some (NumberLiteral (dbl_pow ops a b) pos)) \<and>
         (dbl_is_zero ops b \<longrightarrow>
            optimizer_optimize ops optimizer
              (Some (BinaryExpr TOKEN_DIV (Some (NumberLiteral a pa)) (Some (NumberLiteral b pb)) pos)) =
            Some (optimizer,
                  Some (BinaryExpr TOKEN_DIV (Some (NumberLiteral a pa)) (Some (NumberLiteral b pb)) pos)) \<and>
            optimizer_optimize ops optimizer
              (Some (BinaryExpr TOKEN_MOD (Some (NumberLiteral a pa)) (Some (NumberLiteral b pb)) pos)) =
            Some (optimizer,
                  Some (BinaryExpr TOKEN_MOD (Some (NumberLiteral a pa)) (Some (NumberLiteral b pb)) pos)))"
  by (simp add: optimizer_optimize_binary_literals [OF assms] fold_binary_def)


text \<open>A stand-in arithmetic on the integers, for concrete runs.\<close>

definition int_arith :: "int DoubleOps" where
  "int_arith = \<lparr> dbl_zero = 0, dbl_is_zero = (\<lambda>x. x = 0), dbl_add = (+), dbl_sub = (-),
                 dbl_mul = (*), dbl_div = (div), dbl_fmod = (mod),
                 dbl_pow = (\<lambda>x y. x ^ nat y), dbl_neg = uminus \<rparr>"

lemma pass_bits:
  "pass_bit OPT_CONSTANT_FOLDING = 1" "pass_bit OPT_DEAD_CODE_ELIMINATION = 2"
  "pass_bit OPT_UNUSED_REMOVAL = 4" "pass_bit OPT_INLINE_TEMPLATES = 8" "pass_bit OPT_ALL = 16"
  by (simp_all add: pass_bit_def)

lemma pass_enabled_create:
  "pass_enabled (optimizer_create (pass_bit OPT_CONSTANT_FOLDING)) OPT_CONSTANT_FOLDING"
  "\<not> pass_enabled (optimizer_create (pass_bit OPT_CONSTANT_FOLDING)) OPT_DEAD_CODE_ELIMINATION"
  "\<not> pass_enabled (optimizer_create (pass_bit OPT_DEAD_CODE_ELIMINATION)) OPT_CONSTANT_FOLDING"
  "pass_enabled (optimizer_create (pass_bit OPT_DEAD_CODE_ELIMINATION)) OPT_DEAD_CODE_ELIMINATION"
  "pass_enabled (optimizer_create (pass_bit OPT_ALL)) OPT_CONSTANT_FOLDING"
  "pass_enabled (optimizer_create (pass_bit OPT_ALL)) OPT_DEAD_CODE_ELIMINATION"
  by (simp_all add: pass_enabled_def optimizer_create_def pass_bits)

theorem constant_folding_binary_number_literals_witness:
  "(pass_enabled (optimizer_create (pass_bit OPT_CONSTANT_FOLDING)) OPT_CONSTANT_FOLDING \<or>
    pass_enabled (optimizer_create (pass_bit OPT_CONSTANT_FOLDING)) OPT_DEAD_CODE_ELIMINATION) \<and>
   optimizer_optimize int_arith (optimizer_create (pass_bit OPT_CONSTANT_FOLDING))
     (Some (BinaryExpr TOKEN_ADD (Some (NumberLiteral 2 demo_pos)) (Some (NumberLiteral 3 demo_pos))
        demo_pos)) =
     Some (\<lparr> enabled_passes = 1, optimizations_applied = 1 \<rparr>, Some (NumberLiteral 5 demo_pos)) \<and>
   optimizer_optimize int_arith (optimizer_create (pass_bit OPT_CONSTANT_FOLDING))
     (Some (BinaryExpr TOKEN_DIV (Some (NumberLiteral 2 demo_pos)) (Some (NumberLiteral 0 demo_pos))
        demo_pos)) =
     Some (\<lparr> enabled_passes = 1, optimizations_applied = 0 \<rparr>,
           Some (BinaryExpr TOKEN_DIV (Some (NumberLiteral 2 demo_pos)) (Some (NumberLiteral 0 demo_pos))
             demo_pos))"
proof -
  have h: "pass_enabled (optimizer_create (pass_bit OPT_CONSTANT_FOLDING)) OPT_CONSTANT_FOLDING \<or>
    pass_enabled (optimizer_create (pass_bit OPT_CONSTANT_FOLDING)) OPT_DEAD_CODE_ELIMINATION"
    by (simp add: pass_enabled_create)
  show ?thesis
    using h constant_folding_binary_number_literals [OF h, of int_arith 2 demo_pos 3 demo_pos demo_pos]
      constant_folding_binary_number_literals [OF h, of int_arith 2 demo_pos 0 demo_pos demo_pos]
    by (simp add: int_arith_def optimizer_create_def applied_def pass_bits)
qed

subsection \<open>Dead-code elimination\<close>

lemma optimize_node_if_literal:
  "optimize_node ops optimizer (Some (IfStmt (Some (BooleanLiteral v pc)) then_body else_body pos)) =
     (if v \<noteq> 0 \<and> then_body \<noteq> None then Some (applied optimizer, then_body)
      else if v = 0 then Some (applied optimizer, else_body)
      else (case optimizer_optimize ops optimizer else_body of
              None \<Rightarrow> None
            | Some (optimizer3, else_body') \<Rightarrow>
                Some (optimizer3, Some (IfStmt (Some (BooleanLiteral v pc)) None else_body' pos))))"
  by (auto simp: optimize_node.simps optimizer_optimize_literal is_type_def
      optimizer_optimize.simps [of _ _ None])



text \<open>An \<open>IF true\<close> whose then-branch holds another \<open>IF true\<close>.\<close>

definition text_hi :: "int ASTNode" where
  "text_hi = TextElement ''hi'' 0 demo_pos"








text \<open>
  C3.  The passes are not independent in the code: each enabled pass runs the same
  \<open>optimize_node\<close>, which folds constants and eliminates dead branches alike.  With only
  \<open>OPT_CONSTANT_FOLDING\<close> enabled an \<open>IF true\<close> is replaced by its then-branch, and with only
  \<open>OPT_DEAD_CODE_ELIMINATION\<close> enabled \<open>2 + 3\<close> is folded.
\<close>

theorem passes_not_independent:
  "optimizer_is_pass_enabled (optimizer_create (pass_bit OPT_CONSTANT_FOLDING)) OPT_CONSTANT_FOLDING \<and>
   \<not> optimizer_is_pass_enabled (optimizer_create (pass_bit OPT_CONSTANT_FOLDING))
       OPT_DEAD_CODE_ELIMINATION \<and>
   \<not> optimizer_is_pass_enabled (optimizer_create (pass_bit OPT_CONSTANT_FOLDING)) OPT_ALL \<and>
   optimizer_optimize int_arith (optimizer_create (pass_bit OPT_CONSTANT_FOLDING))
     (Some (IfStmt (Some (BooleanLiteral 1 demo_pos)) (Some text_hi) None demo_pos)) =
     Some (\<lparr> enabled_passes = 1, optimizations_applied = 1 \<rparr>, Some text_hi) \<and>
   \<not> optimizer_is_pass_enabled (optimizer_create (pass_bit OPT_DEAD_CODE_ELIMINATION))
       OPT_CONSTANT_FOLDING \<and>
   optimizer_is_pass_enabled (optimizer_create (pass_bit OPT_DEAD_CODE_ELIMINATION))
       OPT_DEAD_CODE_ELIMINATION \<and>
   \<not> optimizer_is_pass_enabled (optimizer_create (pass_bit OPT_DEAD_CODE_ELIMINATION)) OPT_ALL \<and>
   optimizer_optimize int_arith (optimizer_create (pass_bit OPT_DEAD_CODE_ELIMINATION))
     (Some (BinaryExpr TOKEN_ADD (Some (NumberLiteral 2 demo_pos)) (Some (NumberLiteral 3 demo_pos))
        demo_pos)) =
     Some (\<lparr> enabled_passes = 2, optimizations_applied = 1 \<rparr>, Some (NumberLiteral 5 demo_pos))"
  by (simp add: optimizer_is_pass_enabled_def optimizer_create_def pass_bits
      optimizer_optimize_passes pass_enabled_def optimize_node_if_literal
      optimize_node_binary_literals fold_binary_def int_arith_def applied_def)

section \<open>Lexer (lexer.h, lexer.c)\<close>

text \<open>
  The lexer's state: the source text (\<open>source_len\<close> is its length), the position in it,
  line and column, and the array of tokens pushed so far.  Allocation does not fail.
\<close>

text \<open>
  The union \<open>value\<close> of a token.  \<open>lexer_create_token\<close> writes \<open>NULL\<close>, \<open>0.0\<close> and \<open>0\<close> to
  its members, which leaves all its bytes zero (\<open>NoValue\<close>); \<open>lexer_read_string\<close> then
  stores the copied contents in \<open>string_val\<close>, and \<open>lexer_read_number\<close> stores
  \<open>atof(lexeme)\<close> in \<open>number_val\<close>, kept as the text that \<open>atof\<close> is given.
\<close>

datatype TokenValue = NoValue | StringVal string | NumberVal string

record Token =
  tok_type :: TokenType
  tok_lexeme :: string
  tok_position :: PCCPosition
  tok_value :: TokenValue

record Lexer =
  lx_source :: string
  lx_position :: nat
  lx_line :: nat
  lx_column :: nat
  lx_filename :: string
  tokens :: "Token list"

definition source_len :: "Lexer \<Rightarrow> nat" where
  "source_len lexer = length (lx_source lexer)"


text \<open>
  \<open>isalpha\<close>, \<open>isdigit\<close> and \<open>isalnum\<close> of \<open>ctype.h\<close> in the C locale: the ASCII letters and
  digits (no byte above 127 is one).
\<close>

definition isalpha :: "char \<Rightarrow> bool" where
  "isalpha c \<longleftrightarrow>
     (65 \<le> (of_char c :: nat) \<and> (of_char c :: nat) \<le> 90) \<or>
     (97 \<le> (of_char c :: nat) \<and> (of_char c :: nat) \<le> 122)"




definition lexer_advance :: "Lexer \<Rightarrow> char \<times> Lexer" where
  "lexer_advance lexer =
     (if lx_position lexer \<ge> source_len lexer then (CHR 0x00, lexer)
      else
        (let c = lx_source lexer ! lx_position lexer
         in (c, lexer\<lparr> lx_position := lx_position lexer + 1,
                        lx_column := (if c = CHR 0x0A then 1 else lx_column lexer + 1),
                        lx_line := (if c = CHR 0x0A then lx_line lexer + 1 else lx_line lexer) \<rparr>)))"



lemma advance_source [simp]: "lx_source (snd (lexer_advance lexer)) = lx_source lexer"
  by (simp add: lexer_advance_def Let_def)

lemma advance_source_len [simp]: "source_len (snd (lexer_advance lexer)) = source_len lexer"
  by (simp add: source_len_def)









text \<open>
  \<open>lexer_create_token\<close> copies \<open>lexeme_len\<close> bytes from the pointer it is given and
  subtracts \<open>lexeme_len\<close> from the column.  Here it takes the text that the copy holds (the
  bytes up to a NUL, fewer than \<open>lexeme_len\<close> when the pointer is at the end of the source)
  and \<open>lexeme_len\<close>.
\<close>

definition lexer_create_token :: "Lexer \<Rightarrow> TokenType \<Rightarrow> string \<Rightarrow> nat \<Rightarrow> Token" where
  "lexer_create_token lexer type lexeme lexeme_len =
     \<lparr> tok_type = type, tok_lexeme = lexeme,
       tok_position = \<lparr> line = int (lx_line lexer),
                        column = int (lx_column lexer) - int lexeme_len,
                        filename = lx_filename lexer \<rparr>,
       tok_value = NoValue \<rparr>"



















definition retype :: "TokenType \<Rightarrow> PCCError \<times> Lexer \<times> Token option \<Rightarrow> PCCError \<times> Lexer \<times> Token option" where
  "retype type r =
     (case r of (err, lexer, token) \<Rightarrow>
        if err = PCC_SUCCESS then (err, lexer, map_option (\<lambda>t. t\<lparr> tok_type := type \<rparr>) token)
        else (err, lexer, token))"




subsection \<open>Scanning moves forward\<close>

text \<open>What every scanning helper keeps: the source and the tokens; the position never goes back.\<close>

definition scanned :: "Lexer \<Rightarrow> Lexer \<Rightarrow> bool" where
  "scanned lexer lexer' \<longleftrightarrow>
     lx_source lexer' = lx_source lexer \<and> tokens lexer' = tokens lexer \<and>
     lx_position lexer \<le> lx_position lexer'"





lemma scanned_source_len: "scanned lexer lexer' \<Longrightarrow> source_len lexer' = source_len lexer"
  by (simp add: scanned_def source_len_def)

















lemma create_token_type [simp]: "tok_type (lexer_create_token lexer type lexeme len) = type"
  by (simp add: lexer_create_token_def)

lemma isalpha_nul [simp]: "\<not> isalpha (CHR 0x00)"
  by (simp add: isalpha_def)




























subsection \<open>The loop of \<open>lexer_tokenize\<close>\<close>








subsection \<open>The cause of a lexical error\<close>



















lemma fst_retype [simp]: "fst (retype type r) = fst r"
  by (simp add: retype_def split: prod.splits)












subsection \<open>The outcome of \<open>lexer_tokenize\<close>\<close>









section \<open>JSON code generator (codegen.h, codegen.c)\<close>

text \<open>
  The generator's state is its output buffer; \<open>buffer_size\<close> is the length of the text and
  the capacity only drives \<open>realloc\<close>.  As everywhere, allocation does not fail, nodes and
  their payload strings are not \<open>NULL\<close>, and a C string is the list of its characters, so
  that \<open>buffer_append\<close> (a \<open>memcpy\<close> of \<open>strlen(str) + 1\<close> bytes at the end) is \<open>@\<close>.
\<close>

record CodeGenerator =
  output_buffer :: string
  indent_level :: int

definition buffer_append :: "CodeGenerator \<Rightarrow> string \<Rightarrow> CodeGenerator" where
  "buffer_append generator str = generator\<lparr> output_buffer := output_buffer generator @ str \<rparr>"

fun ast_node_type_name :: "ASTNodeType \<Rightarrow> string" where
  "ast_node_type_name AST_PROGRAM = ''PROGRAM''"
| "ast_node_type_name AST_PROMPT_DEF = ''PROMPT_DEF''"
| "ast_node_type_name AST_VAR_DECL = ''VAR_DECL''"
| "ast_node_type_name AST_TEMPLATE_DEF = ''TEMPLATE_DEF''"
| "ast_node_type_name AST_CONSTRAINT_DEF = ''CONSTRAINT_DEF''"
| "ast_node_type_name AST_OUTPUT_SPEC = ''OUTPUT_SPEC''"
| "ast_node_type_name AST_IDENTIFIER = ''IDENTIFIER''"
| "ast_node_type_name AST_STRING_LITERAL = ''STRING_LITERAL''"
| "ast_node_type_name AST_NUMBER_LITERAL = ''NUMBER_LITERAL''"
| "ast_node_type_name AST_BOOLEAN_LITERAL = ''BOOLEAN_LITERAL''"
| "ast_node_type_name AST_BINARY_EXPR = ''BINARY_EXPR''"
| "ast_node_type_name AST_UNARY_EXPR = ''UNARY_EXPR''"
| "ast_node_type_name AST_VARIABLE_REF = ''VARIABLE_REF''"
| "ast_node_type_name AST_TEMPLATE_CALL = ''TEMPLATE_CALL''"
| "ast_node_type_name AST_FUNCTION_CALL = ''FUNCTION_CALL''"
| "ast_node_type_name AST_IF_STMT = ''IF_STMT''"
| "ast_node_type_name AST_FOR_STMT = ''FOR_STMT''"
| "ast_node_type_name AST_WHILE_STMT = ''WHILE_STMT''"
| "ast_node_type_name AST_TEXT_ELEMENT = ''TEXT_ELEMENT''"
| "ast_node_type_name AST_CONSTRAINT_EXPR = ''CONSTRAINT_EXPR''"
| "ast_node_type_name AST_OUTPUT_FORMAT = ''OUTPUT_FORMAT''"
| "ast_node_type_name AST_STATEMENT_LIST = ''STATEMENT_LIST''"
| "ast_node_type_name AST_EXPRESSION_LIST = ''EXPRESSION_LIST''"
| "ast_node_type_name AST_PARAMETER_LIST = ''PARAMETER_LIST''"
| "ast_node_type_name AST_ARGUMENT_LIST = ''ARGUMENT_LIST''"
| "ast_node_type_name AST_CONSTRAINT_LIST = ''CONSTRAINT_LIST''"
| "ast_node_type_name AST_ELEMENT_LIST = ''ELEMENT_LIST''"
| "ast_node_type_name AST_EMPTY = ''EMPTY''"
| "ast_node_type_name _ = ''UNKNOWN''"

text \<open>A text between double quotes, as the string constants of \<open>codegen.c\<close> spell it.\<close>

definition dquoted :: "string \<Rightarrow> string" where
  "dquoted s = [CHR 0x22] @ s @ [CHR 0x22]"

text \<open>The constant \<open>{"type":"\<close>, the opening of every object.\<close>

definition json_type_open :: string where
  "json_type_open = ''{'' @ dquoted ''type'' @ '':'' @ [CHR 0x22]"

text \<open>The \<open>default\<close> branch of \<open>generate_json\<close>.\<close>

definition generate_json_default :: "CodeGenerator \<Rightarrow> ASTNodeType \<Rightarrow> PCCError \<times> CodeGenerator" where
  "generate_json_default generator type =
     (PCC_SUCCESS,
      buffer_append
        (buffer_append (buffer_append generator json_type_open) (ast_node_type_name type))
        ([CHR 0x22] @ ''}''))"

text \<open>The \<open>list_type\<close> of \<open>generate_json_list\<close>, for the four list kinds sent to it.\<close>

fun list_type :: "ListKind \<Rightarrow> string option" where
  "list_type STATEMENT_LIST = Some ''statement_list''"
| "list_type EXPRESSION_LIST = Some ''expression_list''"
| "list_type ELEMENT_LIST = Some ''element_list''"
| "list_type ARGUMENT_LIST = Some ''argument_list''"
| "list_type _ = None"

definition bool_text :: "int \<Rightarrow> string" where
  "bool_text b = (if b \<noteq> 0 then ''true'' else ''false'')"

text \<open>
  \<open>generate_json\<close> with its emitters; \<open>generate_json_elems\<close> is the loop that the program,
  call and list emitters share: each element, and a comma after all but the last.  The
  status of the calls inside is dropped there, as in the code.  The first argument prints a
  number as \<open>%g\<close> does; \<open>snprintf\<close> keeps 63 characters of it.
\<close>

fun generate_json :: "('d \<Rightarrow> string) \<Rightarrow> CodeGenerator \<Rightarrow> 'd ASTNode \<Rightarrow> PCCError \<times> CodeGenerator"
  and generate_json_elems :: "('d \<Rightarrow> string) \<Rightarrow> CodeGenerator \<Rightarrow> 'd ASTNode list \<Rightarrow> CodeGenerator"
where
  "generate_json fmt generator (Program None p) =
     (PCC_SUCCESS,
      buffer_append generator
        (json_type_open @ ''program'' @ [CHR 0x22] @ '','' @ dquoted ''statements'' @ '':[]}''))"
| "generate_json fmt generator (Program (Some statements) p) =
     (PCC_SUCCESS,
      buffer_append
        (generate_json_elems fmt
           (buffer_append generator
              (json_type_open @ ''program'' @ [CHR 0x22] @ '','' @ dquoted ''statements'' @ '':[''))
           statements)
        '']}'')"
| "generate_json fmt generator (PromptDef name None p) =
     (PCC_SUCCESS,
      buffer_append
        (buffer_append
           (buffer_append
              (buffer_append
                 (buffer_append generator
                    (json_type_open @ ''prompt_def'' @ [CHR 0x22] @ '','' @ dquoted ''name'' @ '':'' @ [CHR 0x22]))
                 name)
              ([CHR 0x22] @ '','' @ dquoted ''body'' @ '':''))
           ''null'')
        ''}'')"
| "generate_json fmt generator (PromptDef name (Some body) p) =
     (PCC_SUCCESS,
      buffer_append
        (snd (generate_json fmt
           (buffer_append
              (buffer_append
                 (buffer_append generator
                    (json_type_open @ ''prompt_def'' @ [CHR 0x22] @ '','' @ dquoted ''name'' @ '':'' @ [CHR 0x22]))
                 name)
              ([CHR 0x22] @ '','' @ dquoted ''body'' @ '':''))
           body))
        ''}'')"
| "generate_json fmt generator (TextElement text is_raw p) =
     (PCC_SUCCESS,
      buffer_append
        (buffer_append
           (buffer_append
              (buffer_append
                 (buffer_append generator
                    (json_type_open @ ''text'' @ [CHR 0x22] @ '','' @ dquoted ''text'' @ '':'' @ [CHR 0x22]))
                 text)
              ([CHR 0x22] @ '','' @ dquoted ''raw'' @ '':''))
           (bool_text is_raw))
        ''}'')"
| "generate_json fmt generator (VariableRef name p) =
     (PCC_SUCCESS,
      buffer_append
        (buffer_append
           (buffer_append generator
              (json_type_open @ ''variable_ref'' @ [CHR 0x22] @ '','' @ dquoted ''name'' @ '':'' @ [CHR 0x22]))
           name)
        ([CHR 0x22] @ ''}''))"
| "generate_json fmt generator (FunctionCall name None p) =
     (PCC_SUCCESS,
      buffer_append
        (buffer_append
           (buffer_append
              (buffer_append
                 (buffer_append (buffer_append generator json_type_open) ''function_call'')
                 ([CHR 0x22] @ '','' @ dquoted ''name'' @ '':'' @ [CHR 0x22]))
              name)
           ([CHR 0x22] @ '','' @ dquoted ''arguments'' @ '':[''))
        '']}'')"
| "generate_json fmt generator (FunctionCall name (Some arguments) p) =
     (PCC_SUCCESS,
      buffer_append
        (generate_json_elems fmt
           (buffer_append
              (buffer_append
                 (buffer_append
                    (buffer_append (buffer_append generator json_type_open) ''function_call'')
                    ([CHR 0x22] @ '','' @ dquoted ''name'' @ '':'' @ [CHR 0x22]))
                 name)
              ([CHR 0x22] @ '','' @ dquoted ''arguments'' @ '':[''))
           arguments)
        '']}'')"
| "generate_json fmt generator (TemplateCall name None p) =
     (PCC_SUCCESS,
      buffer_append
        (buffer_append
           (buffer_append
              (buffer_append
                 (buffer_append (buffer_append generator json_type_open) ''template_call'')
                 ([CHR 0x22] @ '','' @ dquoted ''name'' @ '':'' @ [CHR 0x22]))
              name)
           ([CHR 0x22] @ '','' @ dquoted ''arguments'' @ '':[''))
        '']}'')"
| "generate_json fmt generator (TemplateCall name (Some arguments) p) =
     (PCC_SUCCESS,
      buffer_append
        (generate_json_elems fmt
           (buffer_append
              (buffer_append
                 (buffer_append
                    (buffer_append (buffer_append generator json_type_open) ''template_call'')
                    ([CHR 0x22] @ '','' @ dquoted ''name'' @ '':'' @ [CHR 0x22]))
                 name)
              ([CHR 0x22] @ '','' @ dquoted ''arguments'' @ '':[''))
           arguments)
        '']}'')"
| "generate_json fmt generator (StringLiteral str p) =
     (PCC_SUCCESS,
      buffer_append
        (buffer_append
           (buffer_append generator
              (json_type_open @ ''string'' @ [CHR 0x22] @ '','' @ dquoted ''value'' @ '':'' @ [CHR 0x22]))
           str)
        ([CHR 0x22] @ ''}''))"
| "generate_json fmt generator (NumberLiteral number_val p) =
     (PCC_SUCCESS,
      buffer_append
        (buffer_append
           (buffer_append generator
              (json_type_open @ ''number'' @ [CHR 0x22] @ '','' @ dquoted ''value'' @ '':''))
           (take 63 (fmt number_val)))
        ''}'')"
| "generate_json fmt generator (BooleanLiteral bool_val p) =
     (PCC_SUCCESS,
      buffer_append
        (buffer_append
           (buffer_append generator
              (json_type_open @ ''boolean'' @ [CHR 0x22] @ '','' @ dquoted ''value'' @ '':''))
           (bool_text bool_val))
        ''}'')"
| "generate_json fmt generator (ListNode kind elements p) =
     (case list_type kind of
        None \<Rightarrow> generate_json_default generator (list_node_type kind)
      | Some name \<Rightarrow>
          (case elements of
             None \<Rightarrow>
               (PCC_SUCCESS,
                buffer_append
                  (buffer_append (buffer_append generator json_type_open) name)
                  ([CHR 0x22] @ '','' @ dquoted ''elements'' @ '':[]}''))
           | Some elems \<Rightarrow>
               (PCC_SUCCESS,
                buffer_append
                  (generate_json_elems fmt
                     (buffer_append
                        (buffer_append (buffer_append generator json_type_open) name)
                        ([CHR 0x22] @ '','' @ dquoted ''elements'' @ '':[''))
                     elems)
                  '']}'')))"
| "generate_json fmt generator node = generate_json_default generator (node_type node)"
| "generate_json_elems fmt generator [] = generator"
| "generate_json_elems fmt generator [elem] = snd (generate_json fmt generator elem)"
| "generate_json_elems fmt generator (elem # next # rest) =
     generate_json_elems fmt
       (buffer_append (snd (generate_json fmt generator elem)) '','') (next # rest)"

definition has_json_emitter :: "ASTNodeType \<Rightarrow> bool" where
  "has_json_emitter type \<longleftrightarrow>
     type \<in> {AST_PROGRAM, AST_PROMPT_DEF, AST_TEXT_ELEMENT, AST_VARIABLE_REF, AST_FUNCTION_CALL,
             AST_TEMPLATE_CALL, AST_STRING_LITERAL, AST_NUMBER_LITERAL, AST_BOOLEAN_LITERAL,
             AST_STATEMENT_LIST, AST_EXPRESSION_LIST, AST_ELEMENT_LIST, AST_ARGUMENT_LIST}"


subsection \<open>The generator only appends\<close>

lemma buffer_append_output [simp]:
  "output_buffer (buffer_append generator str) = output_buffer generator @ str"
  by (simp add: buffer_append_def)

lemma generate_json_default_output:
  "output_buffer (snd (generate_json_default generator type)) =
     output_buffer generator @ json_type_open @ ast_node_type_name type @ [CHR 0x22] @ ''}''"
  by (simp add: generate_json_default_def)

lemma generate_json_appends:
  fixes fmt :: "'d \<Rightarrow> string"
  shows "\<exists>rest. output_buffer (snd (generate_json fmt generator node)) =
                  output_buffer generator @ rest"
    and "\<exists>rest. output_buffer (generate_json_elems fmt generator elems) =
                  output_buffer generator @ rest"
proof (induction fmt generator node and fmt generator elems
       rule: generate_json_generate_json_elems.induct)
  case (14 fmt generator kind elements p)
  show ?case
  proof (cases "list_type kind")
    case None
    then show ?thesis by (simp add: generate_json_default_output)
  next
    case name: (Some name)
    show ?thesis
    proof (cases elements)
      case None
      with name show ?thesis by simp
    next
      case (Some elems)
      from 14 [OF name Some] obtain rest where
        "output_buffer (generate_json_elems fmt
           (buffer_append (buffer_append (buffer_append generator json_type_open) name)
              ([CHR 0x22] @ '','' @ dquoted ''elements'' @ '':['')) elems) =
         output_buffer (buffer_append (buffer_append (buffer_append generator json_type_open) name)
              ([CHR 0x22] @ '','' @ dquoted ''elements'' @ '':['')) @ rest" ..
      with name Some show ?thesis by simp
    qed
  qed
qed (auto simp: generate_json_default_output)

definition json_demo :: CodeGenerator where
  "json_demo = \<lparr> output_buffer = [], indent_level = 0 \<rparr>"

subsection \<open>Unhandled kinds and string payloads\<close>

text \<open>
  C9.  In JSON mode, a node of a kind that \<open>generate_json\<close> has no emitter for yields
  success and appends exactly the object \<open>{"type":"<name>"}\<close>, where the name is what
  \<open>ast_node_type_name\<close> returns for the kind (\<open>UNKNOWN\<close> for the two element kinds that it
  does not list).  The string of a string literal, the text of a text element and the name
  of a variable reference, of a prompt definition and of a call are appended between two
  double quotes exactly as they are, whatever characters they contain.
\<close>

theorem generate_json_default_and_verbatim:
  fixes fmt :: "'d \<Rightarrow> string" and node :: "'d ASTNode"
  shows
    "(\<not> has_json_emitter (node_type node) \<longrightarrow>
        generate_json fmt generator node =
          (PCC_SUCCESS,
           generator\<lparr> output_buffer := output_buffer generator @
             ''{'' @ dquoted ''type'' @ '':'' @ dquoted (ast_node_type_name (node_type node)) @ ''}'' \<rparr>)) \<and>
     generate_json fmt generator (StringLiteral s p) =
       (PCC_SUCCESS,
        generator\<lparr> output_buffer := output_buffer generator @
          ''{'' @ dquoted ''type'' @ '':'' @ dquoted ''string'' @ '','' @
          dquoted ''value'' @ '':'' @ dquoted s @ ''}'' \<rparr>) \<and>
     generate_json fmt generator (TextElement s is_raw p) =
       (PCC_SUCCESS,
        generator\<lparr> output_buffer := output_buffer generator @
          ''{'' @ dquoted ''type'' @ '':'' @ dquoted ''text'' @ '','' @
          dquoted ''text'' @ '':'' @ dquoted s @ '','' @
          dquoted ''raw'' @ '':'' @ bool_text is_raw @ ''}'' \<rparr>) \<and>
     generate_json fmt generator (VariableRef s p) =
       (PCC_SUCCESS,
        generator\<lparr> output_buffer := output_buffer generator @
          ''{'' @ dquoted ''type'' @ '':'' @ dquoted ''variable_ref'' @ '','' @
          dquoted ''name'' @ '':'' @ dquoted s @ ''}'' \<rparr>) \<and>
     (\<exists>rest. output_buffer (snd (generate_json fmt generator (PromptDef s body p))) =
        output_buffer generator @
          ''{'' @ dquoted ''type'' @ '':'' @ dquoted ''prompt_def'' @ '','' @
          dquoted ''name'' @ '':'' @ dquoted s @ rest) \<and>
     (\<exists>rest. output_buffer (snd (generate_json fmt generator (FunctionCall s arguments p))) =
        output_buffer generator @
          ''{'' @ dquoted ''type'' @ '':'' @ dquoted ''function_call'' @ '','' @
          dquoted ''name'' @ '':'' @ dquoted s @ rest) \<and>
     (\<exists>rest. output_buffer (snd (generate_json fmt generator (TemplateCall s arguments p))) =
        output_buffer generator @
          ''{'' @ dquoted ''type'' @ '':'' @ dquoted ''template_call'' @ '','' @
          dquoted ''name'' @ '':'' @ dquoted s @ rest)"
proof (intro conjI impI)
  assume "\<not> has_json_emitter (node_type node)"
  then show "generate_json fmt generator node =
      (PCC_SUCCESS,
       generator\<lparr> output_buffer := output_buffer generator @
         ''{'' @ dquoted ''type'' @ '':'' @ dquoted (ast_node_type_name (node_type node)) @ ''}'' \<rparr>)"
  proof (cases node)
    case (ListNode kind elements p')
    with \<open>\<not> has_json_emitter (node_type node)\<close> show ?thesis
      by (cases kind)
         (simp_all add: has_json_emitter_def generate_json_default_def buffer_append_def
            json_type_open_def dquoted_def)
  qed (simp_all add: has_json_emitter_def generate_json_default_def buffer_append_def
         json_type_open_def dquoted_def)
next
  show "\<exists>rest. output_buffer (snd (generate_json fmt generator (PromptDef s body p))) =
        output_buffer generator @
          ''{'' @ dquoted ''type'' @ '':'' @ dquoted ''prompt_def'' @ '','' @
          dquoted ''name'' @ '':'' @ dquoted s @ rest"
  proof (cases body)
    case None
    then show ?thesis by (simp add: json_type_open_def dquoted_def)
  next
    case (Some b)
    let ?g = "buffer_append (buffer_append (buffer_append generator
        (json_type_open @ ''prompt_def'' @ [CHR 0x22] @ '','' @ dquoted ''name'' @ '':'' @ [CHR 0x22]))
        s) ([CHR 0x22] @ '','' @ dquoted ''body'' @ '':'')"
    from generate_json_appends(1) [of fmt ?g b]
    obtain rest where "output_buffer (snd (generate_json fmt ?g b)) = output_buffer ?g @ rest" ..
    with Some show ?thesis by (simp add: json_type_open_def dquoted_def)
  qed
next
  show "\<exists>rest. output_buffer (snd (generate_json fmt generator (FunctionCall s arguments p))) =
        output_buffer generator @
          ''{'' @ dquoted ''type'' @ '':'' @ dquoted ''function_call'' @ '','' @
          dquoted ''name'' @ '':'' @ dquoted s @ rest"
  proof (cases arguments)
    case None
    then show ?thesis by (simp add: json_type_open_def dquoted_def)
  next
    case (Some args)
    let ?g = "buffer_append (buffer_append (buffer_append
        (buffer_append (buffer_append generator json_type_open) ''function_call'')
        ([CHR 0x22] @ '','' @ dquoted ''name'' @ '':'' @ [CHR 0x22])) s)
        ([CHR 0x22] @ '','' @ dquoted ''arguments'' @ '':['')"
    from generate_json_appends(2) [of fmt ?g args]
    obtain rest where "output_buffer (generate_json_elems fmt ?g args) = output_buffer ?g @ rest" ..
    with Some show ?thesis by (simp add: json_type_open_def dquoted_def)
  qed
next
  show "\<exists>rest. output_buffer (snd (generate_json fmt generator (TemplateCall s arguments p))) =
        output_buffer generator @
          ''{'' @ dquoted ''type'' @ '':'' @ dquoted ''template_call'' @ '','' @
          dquoted ''name'' @ '':'' @ dquoted s @ rest"
  proof (cases arguments)
    case None
    then show ?thesis by (simp add: json_type_open_def dquoted_def)
  next
    case (Some args)
    let ?g = "buffer_append (buffer_append (buffer_append
        (buffer_append (buffer_append generator json_type_open) ''template_call'')
        ([CHR 0x22] @ '','' @ dquoted ''name'' @ '':'' @ [CHR 0x22])) s)
        ([CHR 0x22] @ '','' @ dquoted ''arguments'' @ '':['')"
    from generate_json_appends(2) [of fmt ?g args]
    obtain rest where "output_buffer (generate_json_elems fmt ?g args) = output_buffer ?g @ rest" ..
    with Some show ?thesis by (simp add: json_type_open_def dquoted_def)
  qed
qed (simp_all add: buffer_append_def json_type_open_def dquoted_def)

theorem generate_json_default_and_verbatim_witness:
  "\<not> has_json_emitter (node_type (IfStmt None None None demo_pos :: unit ASTNode)) \<and>
   generate_json (\<lambda>d. []) json_demo (IfStmt None None None demo_pos :: unit ASTNode) =
     (PCC_SUCCESS,
      \<lparr> output_buffer =
          ''{'' @ [CHR 0x22] @ ''type'' @ [CHR 0x22] @ '':'' @ [CHR 0x22] @ ''IF_STMT'' @ [CHR 0x22] @ ''}'',
        indent_level = 0 \<rparr>) \<and>
   \<not> has_json_emitter (node_type (VariableElement demo_pos :: unit ASTNode)) \<and>
   generate_json (\<lambda>d. []) json_demo (VariableElement demo_pos :: unit ASTNode) =
     (PCC_SUCCESS,
      \<lparr> output_buffer =
          ''{'' @ [CHR 0x22] @ ''type'' @ [CHR 0x22] @ '':'' @ [CHR 0x22] @ ''UNKNOWN'' @ [CHR 0x22] @ ''}'',
        indent_level = 0 \<rparr>) \<and>
   generate_json (\<lambda>d. []) json_demo
       (StringLiteral [CHR ''a'', CHR 0x22, CHR 0x5C, CHR 0x0A] demo_pos :: unit ASTNode) =
     (PCC_SUCCESS,
      \<lparr> output_buffer =
          ''{'' @ [CHR 0x22] @ ''type'' @ [CHR 0x22] @ '':'' @ [CHR 0x22] @ ''string'' @ [CHR 0x22] @
          '','' @ [CHR 0x22] @ ''value'' @ [CHR 0x22] @ '':'' @
          [CHR 0x22] @ [CHR ''a'', CHR 0x22, CHR 0x5C, CHR 0x0A] @ [CHR 0x22] @ ''}'',
        indent_level = 0 \<rparr>)"
proof -
  have n: "\<not> has_json_emitter (node_type (IfStmt None None None demo_pos :: unit ASTNode))"
    "\<not> has_json_emitter (node_type (VariableElement demo_pos :: unit ASTNode))"
    by (simp_all add: has_json_emitter_def)
  note t = generate_json_default_and_verbatim [where 'd = unit and fmt = "\<lambda>d. []"
      and generator = json_demo and s = "[CHR ''a'', CHR 0x22, CHR 0x5C, CHR 0x0A]" and p = demo_pos]
  from t [of "IfStmt None None None demo_pos"] t [of "VariableElement demo_pos"] n
  show ?thesis
    by (simp add: json_demo_def dquoted_def)
qed

end
